theory Spec2Isabelle
  imports Main "HOL-Library.Word"
begin

section \<open>The DTLS association of src/association.cpp\<close>

text \<open>
  \<open>DtlsAssociation\<close> is a Qt object: it owns a \<open>QUdpSocket\<close>, a \<open>QDtls\<close> engine, a
  \<open>QTimer\<close> and an \<open>unsigned\<close> counter, and it reacts to signals of these three
  collaborators. The model below passes the object explicitly: every slot is a function
  from the object to the object after the slot has returned. What a slot does to the
  outside (a signal it emits, a call into the engine, the socket or the timer) is appended
  to the field \<open>effects\<close>, in program order, so that statements about "exactly one event"
  or "in this order" are statements about a list.

  The three collaborators are Qt library classes, not code of the repository. The engine
  is a parameter of every slot: a record of its operations over an arbitrary engine state
  \<open>'e\<close>. The socket is represented by its \<open>QAbstractSocket::SocketState\<close>, the timer by
  its interval and its active flag.
\<close>

subsection \<open>Data\<close>

type_synonym bytes = "8 word list"

text \<open>
  A \<open>QString\<close> built by \<open>tr(t).arg(...)\<close> or \<open>t.arg(...).arg(...)\<close> is kept as the
  template and the arguments of the successive \<open>arg\<close> calls, uninterpreted: one inner list
  per call, in call order.
\<close>

datatype qarg = QS string | QU "32 word"

datatype qstring = QFormat string "qarg list list"

datatype socket_state =
    UnconnectedState | HostLookupState | ConnectingState | ConnectedState
  | BoundState | ListeningState | ClosingState

datatype dtls_error =
    NoError | InvalidInputParameters | InvalidOperation | UnderlyingSocketError
  | RemoteClosedConnectionError | PeerVerificationError | TlsInitializationError
  | TlsFatalError | TlsNonFatalError

record qtimer =
  interval :: int
  active :: bool

text \<open>
  The operations of \<open>QDtls\<close> that the association calls. Each one takes the engine state
  and the state of the socket it is handed (\<open>&socket\<close>) and returns its C++ result with
  the engine state afterwards. \<open>doHandshake\<close> is the single Qt function whose datagram
  argument defaults to the empty array; while it runs the engine may emit \<open>pskRequired\<close>,
  and the second component of its result is the number of times it did.
  \<open>writeDatagramEncrypted\<close> returns a \<open>qint64\<close>, only ever compared with 0 here.
\<close>

record 'e qdtls =
  isConnectionEncrypted :: "'e \<Rightarrow> bool"
  doHandshake :: "'e \<Rightarrow> socket_state \<Rightarrow> bytes \<Rightarrow> bool \<times> nat \<times> 'e"
  decryptDatagram :: "'e \<Rightarrow> socket_state \<Rightarrow> bytes \<Rightarrow> bytes \<times> 'e"
  dtlsError :: "'e \<Rightarrow> dtls_error"
  dtlsErrorString :: "'e \<Rightarrow> string"
  handleTimeout :: "'e \<Rightarrow> socket_state \<Rightarrow> bool \<times> 'e"
  writeDatagramEncrypted :: "'e \<Rightarrow> socket_state \<Rightarrow> qstring \<Rightarrow> int \<times> 'e"
  shutdown :: "'e \<Rightarrow> socket_state \<Rightarrow> bool \<times> 'e"

text \<open>
  What a slot does to the outside. The four \<open>Emit\<close> constructors are the four signals of
  association.h; an engine call is recorded with its argument and its result.
\<close>

datatype effect =
    EmitErrorMessage qstring
  | EmitWarningMessage qstring
  | EmitInfoMessage qstring
  | EmitServerResponse string bytes bytes
  | ConnectUdpSocketConnected
  | CryptoDoHandshake bytes bool
  | CryptoDecryptDatagram bytes bytes
  | CryptoHandleTimeout bool
  | CryptoWriteDatagramEncrypted qstring int
  | CryptoShutdown bool
  | AuthSetIdentity string
  | AuthSetPreSharedKey bytes
  | SocketClose
  | PingTimerStart
  | PingTimerStop

text \<open>
  The members of the class (association.h, lines 33-37). \<open>ping\<close> is an \<open>unsigned\<close>:
  32 bits, wrapping. \<open>connectedSlots\<close> counts the connections from the socket's
  \<open>connected\<close> signal to \<open>udpSocketConnected\<close> that \<open>connect\<close> has made.
\<close>

record 'e assoc =
  name :: string
  socket :: socket_state
  crypto :: 'e
  pingTimer :: qtimer
  ping :: "32 word"
  connectedSlots :: nat
  effects :: "effect list"

subsection \<open>Constructor and destructor\<close>

text \<open>
  The constructor configures the engine and calls \<open>connectToHost\<close>; \<open>e0\<close> is the engine
  state and \<open>st0\<close> the socket state these calls leave behind. No slot can run before the
  constructor returns, so nothing is recorded.
\<close>

definition DtlsAssociation_ctor :: "'e \<Rightarrow> socket_state \<Rightarrow> string \<Rightarrow> 'e assoc" where
  "DtlsAssociation_ctor e0 st0 connectionName =
     \<lparr>name = connectionName, socket = st0, crypto = e0,
      pingTimer = \<lparr>interval = 5000, active = False\<rparr>,
      ping = 0, connectedSlots = 0, effects = []\<rparr>"

text \<open>The body of the destructor; the members' own destructors run after it, in Qt.\<close>

definition DtlsAssociation_dtor :: "'e qdtls \<Rightarrow> 'e assoc \<Rightarrow> 'e assoc" where
  "DtlsAssociation_dtor eng s =
     (if isConnectionEncrypted eng (crypto s) then
        (case shutdown eng (crypto s) (socket s) of
           (ok, e') \<Rightarrow> s\<lparr>crypto := e', effects := effects s @ [CryptoShutdown ok]\<rparr>)
      else s)"

subsection \<open>Slots\<close>

definition tr_arg :: "string \<Rightarrow> string list \<Rightarrow> qstring" where
  "tr_arg t as = QFormat t [map QS as]"

definition emit :: "effect list \<Rightarrow> 'e assoc \<Rightarrow> 'e assoc" where
  "emit es s = s\<lparr>effects := effects s @ es\<rparr>"

definition pskRequired :: "'e assoc \<Rightarrow> 'e assoc" where
  "pskRequired s =
     emit [EmitInfoMessage (tr_arg ''%1: providing pre-shared key...'' [name s]),
           AuthSetIdentity (name s),
           AuthSetPreSharedKey [0x1a, 0x2b, 0x3c, 0x4d, 0x5e, 0x6f]] s"

text \<open>
  A call of \<open>crypto.doHandshake(&socket, dgram)\<close>: the \<open>pskRequired\<close> slot runs once for
  every emission during the call, then the call returns.
\<close>

definition call_doHandshake :: "'e qdtls \<Rightarrow> bytes \<Rightarrow> 'e assoc \<Rightarrow> bool \<times> 'e assoc" where
  "call_doHandshake eng dgram s =
     (case doHandshake eng (crypto s) (socket s) dgram of
        (ok, psk, e') \<Rightarrow>
          (ok, emit [CryptoDoHandshake dgram ok] (((pskRequired ^^ psk) s)\<lparr>crypto := e'\<rparr>)))"

definition startHandshake :: "'e qdtls \<Rightarrow> 'e assoc \<Rightarrow> 'e assoc" where
  "startHandshake eng s =
     (if socket s \<noteq> ConnectedState then
        (emit [EmitInfoMessage (tr_arg ''%1: connecting UDP socket first...'' [name s]),
               ConnectUdpSocketConnected] s)
          \<lparr>connectedSlots := Suc (connectedSlots s)\<rparr>
      else
        (case call_doHandshake eng [] s of
           (ok, s1) \<Rightarrow>
             if \<not> ok then
               emit [EmitErrorMessage (tr_arg ''%1: failed to start a handshake - %2''
                       [name s1, dtlsErrorString eng (crypto s1)])] s1
             else
               emit [EmitInfoMessage (tr_arg ''%1: starting a handshake'' [name s1])] s1))"

definition udpSocketConnected :: "'e qdtls \<Rightarrow> 'e assoc \<Rightarrow> 'e assoc" where
  "udpSocketConnected eng s =
     startHandshake eng
       (emit [EmitInfoMessage
                (tr_arg ''%1: UDP socket is now in connected state, continue with handshake...''
                   [name s])] s)"

definition ping_message :: "string \<Rightarrow> 32 word \<Rightarrow> qstring" where
  "ping_message nm p = QFormat ''I am %1, please, accept our ping %2'' [[QS nm], [QU p]]"

definition pingTimeout :: "'e qdtls \<Rightarrow> 'e assoc \<Rightarrow> 'e assoc" where
  "pingTimeout eng s =
     (let payload = ping_message (name s) (ping s) in
      case writeDatagramEncrypted eng (crypto s) (socket s) payload of
        (written, e') \<Rightarrow>
          let s1 = emit [CryptoWriteDatagramEncrypted payload written] (s\<lparr>crypto := e'\<rparr>) in
          if written \<le> 0 then
            (emit [EmitErrorMessage (tr_arg ''%1: failed to send a ping - %2''
                     [name s1, dtlsErrorString eng (crypto s1)]),
                   PingTimerStop] s1)
              \<lparr>pingTimer := (pingTimer s1)\<lparr>active := False\<rparr>\<rparr>
          else s1\<lparr>ping := ping s1 + 1\<rparr>)"

text \<open>
  \<open>readyRead\<close> takes what \<open>socket.readDatagram\<close> returned: the count \<open>bytesRead\<close> and
  the buffer \<open>buf\<close> it filled. \<open>readDatagram\<close> never reports more than the buffer holds,
  so \<open>dgram.resize(bytesRead)\<close> only truncates.
\<close>

definition readyRead :: "'e qdtls \<Rightarrow> int \<Rightarrow> bytes \<Rightarrow> 'e assoc \<Rightarrow> 'e assoc" where
  "readyRead eng bytesRead buf s =
     (if bytesRead \<le> 0 then
        emit [EmitWarningMessage (tr_arg ''%1: spurious read notification?'' [name s])] s
      else
        let dgram = take (nat bytesRead) buf in
        if isConnectionEncrypted eng (crypto s) then
          (case decryptDatagram eng (crypto s) (socket s) dgram of
             (plainText, e') \<Rightarrow>
               let s1 = emit [CryptoDecryptDatagram dgram plainText] (s\<lparr>crypto := e'\<rparr>) in
               if plainText \<noteq> [] then
                 emit [EmitServerResponse (name s1) dgram plainText] s1
               else if dtlsError eng (crypto s1) = RemoteClosedConnectionError then
                 (emit [EmitErrorMessage (tr_arg ''%1: shutdown alert received'' [name s1]),
                        SocketClose, PingTimerStop] s1)
                   \<lparr>socket := UnconnectedState,
                    pingTimer := (pingTimer s1)\<lparr>active := False\<rparr>\<rparr>
               else
                 emit [EmitWarningMessage
                         (tr_arg ''%1: zero-length datagram received?'' [name s1])] s1)
        else
          (case call_doHandshake eng dgram s of
             (ok, s1) \<Rightarrow>
               if \<not> ok then
                 emit [EmitErrorMessage (tr_arg ''%1: handshake error - %2''
                         [name s1, dtlsErrorString eng (crypto s1)])] s1
               else if isConnectionEncrypted eng (crypto s1) then
                 pingTimeout eng
                   ((emit [EmitInfoMessage
                             (tr_arg ''%1: encrypted connection established!'' [name s1]),
                           PingTimerStart] s1)
                      \<lparr>pingTimer := (pingTimer s1)\<lparr>active := True\<rparr>\<rparr>)
               else
                 emit [EmitInfoMessage
                         (tr_arg ''%1: continuing with handshake...'' [name s1])] s1))"

definition handshakeTimeout :: "'e qdtls \<Rightarrow> 'e assoc \<Rightarrow> 'e assoc" where
  "handshakeTimeout eng s =
     (let s0 = emit [EmitWarningMessage
                       (tr_arg ''%1: handshake timeout, trying to re-transmit'' [name s])] s in
      case handleTimeout eng (crypto s0) (socket s0) of
        (ok, e') \<Rightarrow>
          let s1 = emit [CryptoHandleTimeout ok] (s0\<lparr>crypto := e'\<rparr>) in
          if \<not> ok then
            emit [EmitErrorMessage (tr_arg ''%1: failed to re-transmit - %2''
                    [name s1, dtlsErrorString eng (crypto s1)])] s1
          else s1)"

subsection \<open>The event loop\<close>

text \<open>
  What reaches the object from outside: a call of the public method, and the signals wired
  up in the constructor and in \<open>startHandshake\<close>. The socket emits \<open>connected\<close> when it
  has entered \<open>ConnectedState\<close>, and Qt runs a slot once per connection made to the
  signal. A \<open>QTimer\<close> emits \<open>timeout\<close> only while it is active.
\<close>

datatype event =
    CallStartHandshake
  | SocketConnected
  | SocketReadyRead int bytes
  | CryptoHandshakeTimeout
  | PingTimerTimeout

fun step :: "'e qdtls \<Rightarrow> event \<Rightarrow> 'e assoc \<Rightarrow> 'e assoc" where
  "step eng CallStartHandshake s = startHandshake eng s"
| "step eng SocketConnected s =
     (udpSocketConnected eng ^^ connectedSlots s) (s\<lparr>socket := ConnectedState\<rparr>)"
| "step eng (SocketReadyRead bytesRead buf) s = readyRead eng bytesRead buf s"
| "step eng CryptoHandshakeTimeout s = handshakeTimeout eng s"
| "step eng PingTimerTimeout s =
     (if active (pingTimer s) then pingTimeout eng s else s)"

fun run :: "'e qdtls \<Rightarrow> 'e assoc \<Rightarrow> event list \<Rightarrow> 'e assoc" where
  "run eng s [] = s"
| "run eng s (ev # evs) = run eng (step eng ev s) evs"

subsection \<open>Reading the record of effects\<close>

fun is_signal :: "effect \<Rightarrow> bool" where
  "is_signal (EmitErrorMessage m) = True"
| "is_signal (EmitWarningMessage m) = True"
| "is_signal (EmitInfoMessage m) = True"
| "is_signal (EmitServerResponse c d p) = True"
| "is_signal e = False"

fun is_crypto_call :: "effect \<Rightarrow> bool" where
  "is_crypto_call (CryptoDoHandshake d ok) = True"
| "is_crypto_call (CryptoDecryptDatagram d p) = True"
| "is_crypto_call (CryptoHandleTimeout ok) = True"
| "is_crypto_call (CryptoWriteDatagramEncrypted p w) = True"
| "is_crypto_call (CryptoShutdown ok) = True"
| "is_crypto_call e = False"

fun is_response :: "effect \<Rightarrow> bool" where
  "is_response (EmitServerResponse c d p) = True"
| "is_response e = False"

fun is_ping :: "effect \<Rightarrow> bool" where
  "is_ping (CryptoWriteDatagramEncrypted p w) = True"
| "is_ping e = False"

fun is_handshake_start :: "effect \<Rightarrow> bool" where
  "is_handshake_start (CryptoDoHandshake d ok) = (d = [])"
| "is_handshake_start e = False"

text \<open>The pings handed to the engine, oldest first, each with what the engine returned.\<close>

fun pings :: "effect list \<Rightarrow> (qstring \<times> int) list" where
  "pings [] = []"
| "pings (CryptoWriteDatagramEncrypted p w # es) = (p, w) # pings es"
| "pings (e # es) = pings es"

text \<open>The numbers a formatted text embeds, and those of all pings of a record.\<close>

fun unsigned_args :: "qstring \<Rightarrow> nat list" where
  "unsigned_args (QFormat t ass) =
     concat (map (\<lambda>a. case a of QU p \<Rightarrow> [unat p] | QS x \<Rightarrow> []) (concat ass))"

definition ping_numbers :: "effect list \<Rightarrow> nat list" where
  "ping_numbers es = concat (map (\<lambda>(p, w). unsigned_args p) (pings es))"

text \<open>Every ping of the record was accepted by the engine (\<open>written > 0\<close>).\<close>

definition pings_succeeded :: "effect list \<Rightarrow> bool" where
  "pings_succeeded es = list_all (\<lambda>(p, w). 0 < w) (pings es)"

text \<open>What \<open>n\<close> runs of the \<open>pskRequired\<close> slot add to the record.\<close>

definition psk_effects :: "nat \<Rightarrow> string \<Rightarrow> effect list" where
  "psk_effects n nm =
     concat (replicate n
       [EmitInfoMessage (tr_arg ''%1: providing pre-shared key...'' [nm]),
        AuthSetIdentity nm,
        AuthSetPreSharedKey [0x1a, 0x2b, 0x3c, 0x4d, 0x5e, 0x6f]])"

text \<open>What a slot, or a run, added to the record.\<close>

definition new_effects :: "'e assoc \<Rightarrow> 'e assoc \<Rightarrow> effect list" where
  "new_effects s s' = drop (length (effects s)) (effects s')"

text \<open>
  \<open>handshake_completes\<close> says that an event is a datagram on which \<open>readyRead\<close>
  continues the handshake and finds the engine encrypted afterwards: the one place where
  the slot starts the keepalive timer. \<open>no_reentry\<close> says that this happens nowhere in a
  run.
\<close>

fun handshake_completes :: "'e qdtls \<Rightarrow> event \<Rightarrow> 'e assoc \<Rightarrow> bool" where
  "handshake_completes eng (SocketReadyRead bytesRead buf) s =
     (0 < bytesRead \<and> \<not> isConnectionEncrypted eng (crypto s) \<and>
      (case doHandshake eng (crypto s) (socket s) (take (nat bytesRead) buf) of
         (ok, psk, e') \<Rightarrow> ok \<and> isConnectionEncrypted eng e'))"
| "handshake_completes eng ev s = False"

fun no_reentry :: "'e qdtls \<Rightarrow> 'e assoc \<Rightarrow> event list \<Rightarrow> bool" where
  "no_reentry eng s [] = True"
| "no_reentry eng s (ev # evs) =
     (\<not> handshake_completes eng ev s \<and> no_reentry eng (step eng ev s) evs)"

subsection \<open>A small engine to run the model on\<close>

text \<open>
  A DTLS engine reduced to what the association can observe: whether it is encrypted, how
  many handshake flights are still missing, whether the path to the peer works, and the
  last error. A handshake needs a datagram from the peer to make progress; the datagram
  \<open>[0]\<close> decrypts to the peer's shutdown alert, any other one to its tail.
\<close>

record sim =
  sim_encrypted :: bool
  sim_flights :: nat
  sim_up :: bool
  sim_error :: dtls_error

definition sim_engine :: "sim qdtls" where
  "sim_engine =
     \<lparr>isConnectionEncrypted = sim_encrypted,
      doHandshake = (\<lambda>e st dgram.
         if \<not> sim_up e then (False, 0, e\<lparr>sim_error := TlsFatalError\<rparr>)
         else if dgram = [] then (True, 0, e)
         else if sim_flights e = 0 then (True, 1, e\<lparr>sim_encrypted := True\<rparr>)
         else (True, 0, e\<lparr>sim_flights := sim_flights e - 1\<rparr>)),
      decryptDatagram = (\<lambda>e st dgram.
         if dgram = [0] then
           ([], e\<lparr>sim_encrypted := False, sim_error := RemoteClosedConnectionError\<rparr>)
         else (tl dgram, e)),
      dtlsError = sim_error,
      dtlsErrorString = (\<lambda>e. if sim_error e = NoError then ''no error'' else ''engine error''),
      handleTimeout = (\<lambda>e st. (sim_up e, e)),
      writeDatagramEncrypted = (\<lambda>e st payload.
         if sim_up e then (1, e) else (- 1, e\<lparr>sim_error := TlsFatalError\<rparr>)),
      shutdown = (\<lambda>e st. (True, e\<lparr>sim_encrypted := False\<rparr>))\<rparr>"

definition sim_fresh :: sim where
  "sim_fresh = \<lparr>sim_encrypted = False, sim_flights = 0, sim_up = True, sim_error = NoError\<rparr>"

definition sim_secured :: sim where
  "sim_secured = \<lparr>sim_encrypted = True, sim_flights = 0, sim_up = True, sim_error = NoError\<rparr>"

text \<open>An association on the small engine, with the socket already connected.\<close>

definition on_sim :: "sim \<Rightarrow> sim assoc" where
  "on_sim e = DtlsAssociation_ctor e ConnectedState ''client''"

subsection \<open>An engine that loses its connection\<close>

text \<open>
  A second engine, for runs in which something fails and the peer comes back. The path to
  the peer carries \<open>l_credit\<close> more datagrams. Starting the handshake, a retransmission
  and an encrypted send each use one up and fail when none is left; a failed encrypted send
  is fatal for the DTLS connection, which the engine resets (it is no longer encrypted). A
  datagram from the peer completes the handshake and shows that the path carries two more
  datagrams. The datagram \<open>[0]\<close> decrypts to the peer's shutdown alert.
\<close>

record lossy =
  l_encrypted :: bool
  l_credit :: nat
  l_error :: dtls_error

definition lossy_engine :: "lossy qdtls" where
  "lossy_engine =
     \<lparr>isConnectionEncrypted = l_encrypted,
      doHandshake = (\<lambda>e st dgram.
         if dgram = [] then
           (if 0 < l_credit e then (True, 0, e\<lparr>l_credit := l_credit e - 1\<rparr>)
            else (False, 0, e\<lparr>l_error := TlsFatalError\<rparr>))
         else (True, 1, e\<lparr>l_encrypted := True, l_credit := 2, l_error := NoError\<rparr>)),
      decryptDatagram = (\<lambda>e st dgram.
         if dgram = [0] then
           ([], e\<lparr>l_encrypted := False, l_error := RemoteClosedConnectionError\<rparr>)
         else (dgram, e)),
      dtlsError = l_error,
      dtlsErrorString = (\<lambda>e. if l_error e = NoError then ''no error'' else ''engine error''),
      handleTimeout = (\<lambda>e st.
         if 0 < l_credit e then (True, e\<lparr>l_credit := l_credit e - 1\<rparr>)
         else (False, e\<lparr>l_error := TlsFatalError\<rparr>)),
      writeDatagramEncrypted = (\<lambda>e st payload.
         if 0 < l_credit e then (1, e\<lparr>l_credit := l_credit e - 1\<rparr>)
         else (- 1, e\<lparr>l_encrypted := False, l_error := TlsFatalError\<rparr>)),
      shutdown = (\<lambda>e st. (True, e\<lparr>l_encrypted := False\<rparr>))\<rparr>"

text \<open>A new association on this engine: socket connected, the path good for one datagram.\<close>

definition on_lossy :: "lossy assoc" where
  "on_lossy =
     DtlsAssociation_ctor \<lparr>l_encrypted = False, l_credit = 1, l_error = NoError\<rparr>
       ConnectedState ''client''"

section \<open>Auxiliary facts\<close>

subsection \<open>The slots in closed form\<close>

lemma psk_effects_snoc:
  "psk_effects (Suc n) nm =
     psk_effects n nm @
       [EmitInfoMessage (tr_arg ''%1: providing pre-shared key...'' [nm]),
        AuthSetIdentity nm,
        AuthSetPreSharedKey [0x1a, 0x2b, 0x3c, 0x4d, 0x5e, 0x6f]]"
proof -
  have "replicate (Suc n) x = replicate n x @ [x]" for x :: "effect list"
    by (simp add: replicate_append_same)
  then show ?thesis
    unfolding psk_effects_def by simp
qed

lemma funpow_pskRequired:
  "(pskRequired ^^ n) s = s\<lparr>effects := effects s @ psk_effects n (name s)\<rparr>"
proof (induction n)
  case 0
  show ?case by (simp add: psk_effects_def)
next
  case (Suc n)
  show ?case
    unfolding funpow.simps o_apply Suc psk_effects_snoc
    by (simp add: pskRequired_def emit_def)
qed

lemma call_doHandshake_eq:
  "call_doHandshake eng dgram s =
     (case doHandshake eng (crypto s) (socket s) dgram of
        (ok, psk, e') \<Rightarrow>
          (ok, s\<lparr>crypto := e',
                 effects := effects s @ psk_effects psk (name s) @ [CryptoDoHandshake dgram ok]\<rparr>))"
  by (simp add: call_doHandshake_def funpow_pskRequired emit_def split: prod.splits)

lemma psk_effects_set:
  "e \<in> set (psk_effects n nm) \<Longrightarrow>
     e = EmitInfoMessage (tr_arg ''%1: providing pre-shared key...'' [nm]) \<or>
     e = AuthSetIdentity nm \<or>
     e = AuthSetPreSharedKey [0x1a, 0x2b, 0x3c, 0x4d, 0x5e, 0x6f]"
  by (auto simp: psk_effects_def split: if_splits)

lemma pings_append: "pings (xs @ ys) = pings xs @ pings ys"
  by (induction xs rule: pings.induct) simp_all

lemma pings_psk_effects: "pings (psk_effects n nm) = []"
  by (induction n) (simp_all add: psk_effects_def)

lemma filter_psk_effects:
  "filter is_response (psk_effects n nm) = []"
  "filter is_crypto_call (psk_effects n nm) = []"
  "filter is_handshake_start (psk_effects n nm) = []"
  "filter is_ping (psk_effects n nm) = []"
  by (auto simp: filter_empty_conv dest!: psk_effects_set)

lemma PingTimerStart_psk_effects: "PingTimerStart \<notin> set (psk_effects n nm)"
  by (auto dest!: psk_effects_set)

lemmas slot_simps = emit_def call_doHandshake_eq startHandshake_def
  udpSocketConnected_def pingTimeout_def readyRead_def handshakeTimeout_def
  DtlsAssociation_dtor_def

lemmas sim_defs = sim_engine_def sim_fresh_def sim_secured_def on_sim_def
  DtlsAssociation_ctor_def



lemma startHandshake_unconnected:
  "socket s \<noteq> ConnectedState \<Longrightarrow>
     startHandshake eng s =
       s\<lparr>connectedSlots := Suc (connectedSlots s),
         effects := effects s @
           [EmitInfoMessage (tr_arg ''%1: connecting UDP socket first...'' [name s]),
            ConnectUdpSocketConnected]\<rparr>"
  by (simp add: startHandshake_def emit_def)

lemma startHandshake_connected:
  "socket s = ConnectedState \<Longrightarrow>
   doHandshake eng (crypto s) ConnectedState [] = (ok, psk, e') \<Longrightarrow>
     startHandshake eng s =
       s\<lparr>crypto := e',
         effects := effects s @ psk_effects psk (name s) @
           [CryptoDoHandshake [] ok,
            if ok then EmitInfoMessage (tr_arg ''%1: starting a handshake'' [name s])
            else EmitErrorMessage (tr_arg ''%1: failed to start a handshake - %2''
                   [name s, dtlsErrorString eng e'])]\<rparr>"
  by (simp add: slot_simps)

lemma udpSocketConnected_connected:
  "socket s = ConnectedState \<Longrightarrow>
   doHandshake eng (crypto s) ConnectedState [] = (ok, psk, e') \<Longrightarrow>
     udpSocketConnected eng s =
       s\<lparr>crypto := e',
         effects := effects s @
           EmitInfoMessage
             (tr_arg ''%1: UDP socket is now in connected state, continue with handshake...''
                [name s]) #
           psk_effects psk (name s) @
           [CryptoDoHandshake [] ok,
            if ok then EmitInfoMessage (tr_arg ''%1: starting a handshake'' [name s])
            else EmitErrorMessage (tr_arg ''%1: failed to start a handshake - %2''
                   [name s, dtlsErrorString eng e'])]\<rparr>"
  by (simp add: slot_simps)

lemma count_list_psk_effects:
  "e \<notin> {EmitInfoMessage (tr_arg ''%1: providing pre-shared key...'' [nm]),
          AuthSetIdentity nm, AuthSetPreSharedKey [0x1a, 0x2b, 0x3c, 0x4d, 0x5e, 0x6f]} \<Longrightarrow>
   count_list (psk_effects n nm) e = 0"
  by (rule count_notin) (auto dest!: psk_effects_set)

lemma udpSocketConnected_frame:
  assumes "socket s = ConnectedState"
  shows "\<exists>c' ext. udpSocketConnected eng s = s\<lparr>crypto := c', effects := effects s @ ext\<rparr> \<and>
           pings ext = [] \<and> PingTimerStart \<notin> set ext \<and> filter is_response ext = [] \<and>
           length (filter is_handshake_start ext) = 1 \<and>
           count_list ext (EmitInfoMessage
             (tr_arg ''%1: UDP socket is now in connected state, continue with handshake...''
                [name s])) = 1"
proof -
  obtain ok psk e' where dh: "doHandshake eng (crypto s) ConnectedState [] = (ok, psk, e')"
    by (metis prod_cases3)
  show ?thesis
    apply (rule exI [of _ e'])
    apply (rule exI)
    apply (rule conjI)
     apply (rule udpSocketConnected_connected [OF assms dh])
    apply (simp add: pings_append pings_psk_effects filter_psk_effects PingTimerStart_psk_effects
        count_list_psk_effects tr_arg_def)
    done
qed

lemma funpow_udpSocketConnected_frame:
  assumes "socket s = ConnectedState"
  shows "\<exists>c' ext. (udpSocketConnected eng ^^ n) s = s\<lparr>crypto := c', effects := effects s @ ext\<rparr> \<and>
           pings ext = [] \<and> PingTimerStart \<notin> set ext \<and> filter is_response ext = [] \<and>
           length (filter is_handshake_start ext) = n \<and>
           count_list ext (EmitInfoMessage
             (tr_arg ''%1: UDP socket is now in connected state, continue with handshake...''
                [name s])) = n"
proof (induction n)
  case 0
  show ?case
    by (rule exI [of _ "crypto s"], rule exI [of _ "[]"]) simp
next
  case (Suc n)
  then obtain c1 ext1 where
    1: "(udpSocketConnected eng ^^ n) s = s\<lparr>crypto := c1, effects := effects s @ ext1\<rparr>"
    and p1: "pings ext1 = []" "PingTimerStart \<notin> set ext1" "filter is_response ext1 = []"
      "length (filter is_handshake_start ext1) = n"
      "count_list ext1 (EmitInfoMessage
         (tr_arg ''%1: UDP socket is now in connected state, continue with handshake...''
            [name s])) = n"
    by blast
  let ?s1 = "s\<lparr>crypto := c1, effects := effects s @ ext1\<rparr>"
  have "socket ?s1 = ConnectedState" using assms by simp
  from udpSocketConnected_frame [OF this, of eng] obtain c2 ext2 where
    2: "udpSocketConnected eng ?s1 = ?s1\<lparr>crypto := c2, effects := effects ?s1 @ ext2\<rparr>"
    and p2: "pings ext2 = []" "PingTimerStart \<notin> set ext2" "filter is_response ext2 = []"
      "length (filter is_handshake_start ext2) = 1"
      "count_list ext2 (EmitInfoMessage
         (tr_arg ''%1: UDP socket is now in connected state, continue with handshake...''
            [name ?s1])) = 1"
    by blast
  show ?case
    apply (rule exI [of _ c2])
    apply (rule exI [of _ "ext1 @ ext2"])
    using p1 p2 by (simp add: 1 2 pings_append)
qed

lemma pingTimeout_eq:
  "writeDatagramEncrypted eng (crypto s) (socket s) (ping_message (name s) (ping s)) = (written, e') \<Longrightarrow>
     pingTimeout eng s =
       (if written \<le> 0 then
          s\<lparr>crypto := e', pingTimer := (pingTimer s)\<lparr>active := False\<rparr>,
            effects := effects s @
              [CryptoWriteDatagramEncrypted (ping_message (name s) (ping s)) written,
               EmitErrorMessage (tr_arg ''%1: failed to send a ping - %2''
                 [name s, dtlsErrorString eng e']),
               PingTimerStop]\<rparr>
        else
          s\<lparr>crypto := e', ping := ping s + 1,
            effects := effects s @
              [CryptoWriteDatagramEncrypted (ping_message (name s) (ping s)) written]\<rparr>)"
  by (simp add: slot_simps Let_def)

lemma handshakeTimeout_eq:
  "handleTimeout eng (crypto s) (socket s) = (ok, e') \<Longrightarrow>
     handshakeTimeout eng s =
       s\<lparr>crypto := e',
         effects := effects s @
           [EmitWarningMessage (tr_arg ''%1: handshake timeout, trying to re-transmit'' [name s]),
            CryptoHandleTimeout ok] @
           (if ok then []
            else [EmitErrorMessage (tr_arg ''%1: failed to re-transmit - %2''
                    [name s, dtlsErrorString eng e'])])\<rparr>"
  by (simp add: slot_simps Let_def)

lemma readyRead_decrypt_eq:
  "0 < bytesRead \<Longrightarrow> isConnectionEncrypted eng (crypto s) \<Longrightarrow>
   decryptDatagram eng (crypto s) (socket s) (take (nat bytesRead) buf) = (plainText, e') \<Longrightarrow>
     readyRead eng bytesRead buf s =
       (if plainText \<noteq> [] then
          s\<lparr>crypto := e',
            effects := effects s @
              [CryptoDecryptDatagram (take (nat bytesRead) buf) plainText,
               EmitServerResponse (name s) (take (nat bytesRead) buf) plainText]\<rparr>
        else if dtlsError eng e' = RemoteClosedConnectionError then
          s\<lparr>socket := UnconnectedState, crypto := e',
            pingTimer := (pingTimer s)\<lparr>active := False\<rparr>,
            effects := effects s @
              [CryptoDecryptDatagram (take (nat bytesRead) buf) plainText,
               EmitErrorMessage (tr_arg ''%1: shutdown alert received'' [name s]),
               SocketClose, PingTimerStop]\<rparr>
        else
          s\<lparr>crypto := e',
            effects := effects s @
              [CryptoDecryptDatagram (take (nat bytesRead) buf) plainText,
               EmitWarningMessage (tr_arg ''%1: zero-length datagram received?'' [name s])]\<rparr>)"
  by (simp add: slot_simps Let_def)

lemma readyRead_handshake_eq:
  "0 < bytesRead \<Longrightarrow> \<not> isConnectionEncrypted eng (crypto s) \<Longrightarrow>
   doHandshake eng (crypto s) (socket s) (take (nat bytesRead) buf) = (ok, psk, e') \<Longrightarrow>
     readyRead eng bytesRead buf s =
       (if \<not> ok then
          s\<lparr>crypto := e',
            effects := effects s @ psk_effects psk (name s) @
              [CryptoDoHandshake (take (nat bytesRead) buf) ok,
               EmitErrorMessage (tr_arg ''%1: handshake error - %2''
                 [name s, dtlsErrorString eng e'])]\<rparr>
        else if isConnectionEncrypted eng e' then
          pingTimeout eng
            (s\<lparr>crypto := e',
               effects := effects s @ psk_effects psk (name s) @
                 [CryptoDoHandshake (take (nat bytesRead) buf) ok,
                  EmitInfoMessage (tr_arg ''%1: encrypted connection established!'' [name s]),
                  PingTimerStart],
               pingTimer := (pingTimer s)\<lparr>active := True\<rparr>\<rparr>)
        else
          s\<lparr>crypto := e',
            effects := effects s @ psk_effects psk (name s) @
              [CryptoDoHandshake (take (nat bytesRead) buf) ok,
               EmitInfoMessage (tr_arg ''%1: continuing with handshake...'' [name s])]\<rparr>)"
  by (simp add: emit_def call_doHandshake_eq readyRead_def Let_def)



text \<open>The common shape of every step: the record only grows, the name stays.\<close>

lemma step_ping_shape:
  "effects (step eng ev s) = effects s @ new_effects s (step eng ev s) \<and>
   name (step eng ev s) = name s \<and>
     (pings (new_effects s (step eng ev s)) = [] \<and> ping (step eng ev s) = ping s \<or>
      (\<exists>w. pings (new_effects s (step eng ev s)) = [(ping_message (name s) (ping s), w)] \<and>
           ping (step eng ev s) = (if 0 < w then ping s + 1 else ping s)))"
proof (cases ev)
  case CallStartHandshake
  obtain ok psk e' where dh: "doHandshake eng (crypto s) ConnectedState [] = (ok, psk, e')"
    by (metis prod_cases3)
  show ?thesis
  proof (cases "socket s = ConnectedState")
    case True
    show ?thesis
      unfolding CallStartHandshake step.simps startHandshake_connected [OF True dh]
      by (simp add: new_effects_def pings_append pings_psk_effects)
  next
    case False
    show ?thesis
      unfolding CallStartHandshake step.simps startHandshake_unconnected [OF False]
      by (simp add: new_effects_def)
  qed
next
  case SocketConnected
  have "socket (s\<lparr>socket := ConnectedState\<rparr>) = ConnectedState" by simp
  from funpow_udpSocketConnected_frame [OF this, where eng = eng and n = "connectedSlots s"]
  obtain c' ext where
    "(udpSocketConnected eng ^^ connectedSlots s) (s\<lparr>socket := ConnectedState\<rparr>) =
       s\<lparr>socket := ConnectedState, crypto := c', effects := effects s @ ext\<rparr>"
    and "pings ext = []"
    by auto
  then show ?thesis
    unfolding SocketConnected step.simps by (simp add: new_effects_def)
next
  case (SocketReadyRead bytesRead buf)
  let ?d = "take (nat bytesRead) buf"
  obtain pt e1 where dd: "decryptDatagram eng (crypto s) (socket s) ?d = (pt, e1)"
    by (metis prod.exhaust)
  obtain ok psk e2 where dh: "doHandshake eng (crypto s) (socket s) ?d = (ok, psk, e2)"
    by (metis prod_cases3)
  let ?s2 = "s\<lparr>crypto := e2,
               effects := effects s @ psk_effects psk (name s) @
                 [CryptoDoHandshake (take (nat bytesRead) buf) ok,
                  EmitInfoMessage (tr_arg ''%1: encrypted connection established!'' [name s]),
                  PingTimerStart],
               pingTimer := (pingTimer s)\<lparr>active := True\<rparr>\<rparr>"
  obtain w e3 where wr:
    "writeDatagramEncrypted eng (crypto ?s2) (socket ?s2) (ping_message (name ?s2) (ping ?s2)) = (w, e3)"
    by (metis prod.exhaust)
  consider "bytesRead \<le> 0" | "0 < bytesRead" "isConnectionEncrypted eng (crypto s)"
    | "0 < bytesRead" "\<not> isConnectionEncrypted eng (crypto s)" by linarith
  then show ?thesis
  proof cases
    case 1
    then show ?thesis
      unfolding SocketReadyRead step.simps
      by (simp add: readyRead_def emit_def new_effects_def)
  next
    case 2
    show ?thesis
      unfolding SocketReadyRead step.simps readyRead_decrypt_eq [OF 2 dd]
      by (simp add: new_effects_def)
  next
    case 3
    show ?thesis
      unfolding SocketReadyRead step.simps readyRead_handshake_eq [OF 3 dh] pingTimeout_eq [OF wr]
      by (simp add: new_effects_def pings_append pings_psk_effects)
  qed
next
  case CryptoHandshakeTimeout
  obtain ok e' where ht: "handleTimeout eng (crypto s) (socket s) = (ok, e')"
    by (metis prod.exhaust)
  show ?thesis
    unfolding CryptoHandshakeTimeout step.simps handshakeTimeout_eq [OF ht]
    by (simp add: new_effects_def)
next
  case PingTimerTimeout
  obtain w e' where wr:
    "writeDatagramEncrypted eng (crypto s) (socket s) (ping_message (name s) (ping s)) = (w, e')"
    by (metis prod.exhaust)
  show ?thesis
    unfolding PingTimerTimeout step.simps pingTimeout_eq [OF wr]
    by (simp add: new_effects_def)
qed

subsection \<open>Runs\<close>

lemma new_effects_append:
  "effects s1 = effects s @ a \<Longrightarrow> effects s2 = effects s1 @ b \<Longrightarrow> new_effects s s2 = a @ b"
  by (simp add: new_effects_def)

lemma run_grows:
  "effects (run eng s evs) = effects s @ new_effects s (run eng s evs) \<and>
   name (run eng s evs) = name s"
proof (induction evs arbitrary: s)
  case Nil
  show ?case by (simp add: new_effects_def)
next
  case (Cons ev evs)
  have 1: "effects (step eng ev s) = effects s @ new_effects s (step eng ev s)"
    and n1: "name (step eng ev s) = name s"
    using step_ping_shape [of eng ev s] by simp_all
  have 2: "effects (run eng (step eng ev s) evs) =
             effects (step eng ev s) @ new_effects (step eng ev s) (run eng (step eng ev s) evs)"
    and n2: "name (run eng (step eng ev s) evs) = name (step eng ev s)"
    using Cons.IH [of "step eng ev s"] by simp_all
  show ?case
    using 1 2 n1 n2 new_effects_append [OF 1 2] by simp
qed

lemma run_Cons_new_effects:
  "new_effects s (run eng (step eng ev s) evs) =
     new_effects s (step eng ev s) @ new_effects (step eng ev s) (run eng (step eng ev s) evs)"
proof -
  have 1: "effects (step eng ev s) = effects s @ new_effects s (step eng ev s)"
    using step_ping_shape [of eng ev s] by simp
  have 2: "effects (run eng (step eng ev s) evs) =
             effects (step eng ev s) @ new_effects (step eng ev s) (run eng (step eng ev s) evs)"
    using run_grows [of eng "step eng ev s" evs] by simp
  show ?thesis using new_effects_append [OF 1 2] by simp
qed

lemma pings_succeeded_append:
  "pings_succeeded (xs @ ys) = (pings_succeeded xs \<and> pings_succeeded ys)"
  by (simp add: pings_succeeded_def pings_append)

lemma run_ping_payloads:
  "pings_succeeded (new_effects s (run eng s evs)) \<Longrightarrow>
     map fst (pings (new_effects s (run eng s evs))) =
       map (\<lambda>k. ping_message (name s) (ping s + of_nat k))
         [0..<length (pings (new_effects s (run eng s evs)))] \<and>
     ping (run eng s evs) = ping s + of_nat (length (pings (new_effects s (run eng s evs))))"
proof (induction evs arbitrary: s)
  case Nil
  show ?case by (simp add: new_effects_def)
next
  case (Cons ev evs)
  let ?s1 = "step eng ev s"
  let ?n1 = "new_effects s ?s1"
  let ?n2 = "new_effects ?s1 (run eng ?s1 evs)"
  have split: "new_effects s (run eng ?s1 evs) = ?n1 @ ?n2"
    by (rule run_Cons_new_effects)
  from Cons.prems have ok1: "pings_succeeded ?n1" and ok2: "pings_succeeded ?n2"
    by (simp_all add: split pings_succeeded_append)
  note IH = Cons.IH [OF ok2]
  have nm: "name ?s1 = name s" using step_ping_shape [of eng ev s] by simp
  from step_ping_shape [of eng ev s] consider
    (quiet) "pings ?n1 = []" "ping ?s1 = ping s"
    | (sent) w where "pings ?n1 = [(ping_message (name s) (ping s), w)]"
        "ping ?s1 = (if 0 < w then ping s + 1 else ping s)"
    by blast
  then show ?case
  proof cases
    case quiet
    then show ?thesis using IH by (simp add: split pings_append nm)
  next
    case sent
    with ok1 have "0 < w" by (simp add: pings_succeeded_def)
    with sent have p1: "ping ?s1 = ping s + 1" by simp
    show ?thesis
      using IH sent(1)
      by (simp add: split pings_append nm p1 map_upt_Suc add.assoc del: upt_Suc)
  qed
qed

lemma unsigned_args_ping_message: "unsigned_args (ping_message nm p) = [unat p]"
  by (simp add: ping_message_def)

lemma ping_numbers_payloads:
  "map fst (pings es) = map (\<lambda>k. ping_message nm (f k)) ks \<Longrightarrow>
     ping_numbers es = map (\<lambda>k. unat (f k)) ks"
proof -
  assume a: "map fst (pings es) = map (\<lambda>k. ping_message nm (f k)) ks"
  have "ping_numbers es = concat (map unsigned_args (map fst (pings es)))"
    by (simp add: ping_numbers_def case_prod_unfold comp_def)
  also have "\<dots> = map (\<lambda>k. unat (f k)) ks"
    unfolding a by (induction ks) (simp_all add: unsigned_args_ping_message)
  finally show ?thesis .
qed


lemma run_from_ctor:
  "pings_succeeded (effects (run eng (DtlsAssociation_ctor e0 st0 nm) evs)) \<Longrightarrow>
     ping_numbers (effects (run eng (DtlsAssociation_ctor e0 st0 nm) evs)) =
       map (\<lambda>k. k mod 2 ^ 32)
         [0..<length (pings (effects (run eng (DtlsAssociation_ctor e0 st0 nm) evs)))]"
proof -
  let ?s0 = "DtlsAssociation_ctor e0 st0 nm"
  assume ok: "pings_succeeded (effects (run eng ?s0 evs))"
  have e: "new_effects ?s0 (run eng ?s0 evs) = effects (run eng ?s0 evs)"
    by (simp add: new_effects_def DtlsAssociation_ctor_def)
  have s0: "name ?s0 = nm" "ping ?s0 = 0"
    by (simp_all add: DtlsAssociation_ctor_def)
  from run_ping_payloads [of ?s0 eng evs] ok
  have "map fst (pings (effects (run eng ?s0 evs))) =
          map (\<lambda>k. ping_message nm (of_nat k)) [0..<length (pings (effects (run eng ?s0 evs)))]"
    unfolding e s0 by simp
  from ping_numbers_payloads [OF this] show ?thesis
    by (simp add: unat_of_nat)
qed

subsection \<open>While the keepalive timer is inactive\<close>

lemma handshake_completes_ReadyRead:
  "doHandshake eng (crypto s) (socket s) (take (nat bytesRead) buf) = (ok, psk, e') \<Longrightarrow>
   handshake_completes eng (SocketReadyRead bytesRead buf) s =
     (0 < bytesRead \<and> \<not> isConnectionEncrypted eng (crypto s) \<and> ok \<and>
      isConnectionEncrypted eng e')"
  by simp

lemma step_inactive:
  assumes "\<not> active (pingTimer s)"
  shows "(\<not> handshake_completes eng ev s \<longrightarrow>
            pings (new_effects s (step eng ev s)) = [] \<and>
            PingTimerStart \<notin> set (new_effects s (step eng ev s)) \<and>
            \<not> active (pingTimer (step eng ev s)) \<and>
            ping (step eng ev s) = ping s) \<and>
         (handshake_completes eng ev s \<longrightarrow>
            (\<exists>X w rest. new_effects s (step eng ev s) =
               X @ [PingTimerStart,
                    CryptoWriteDatagramEncrypted (ping_message (name s) (ping s)) w] @ rest \<and>
               pings X = [] \<and> PingTimerStart \<notin> set X))"
proof (cases ev)
  case CallStartHandshake
  obtain ok psk e' where dh: "doHandshake eng (crypto s) ConnectedState [] = (ok, psk, e')"
    by (metis prod_cases3)
  show ?thesis
  proof (cases "socket s = ConnectedState")
    case True
    show ?thesis
      unfolding CallStartHandshake step.simps startHandshake_connected [OF True dh]
      using assms
      by (simp add: new_effects_def pings_append pings_psk_effects PingTimerStart_psk_effects)
  next
    case False
    show ?thesis
      unfolding CallStartHandshake step.simps startHandshake_unconnected [OF False]
      using assms by (simp add: new_effects_def)
  qed
next
  case SocketConnected
  have "socket (s\<lparr>socket := ConnectedState\<rparr>) = ConnectedState" by simp
  from funpow_udpSocketConnected_frame [OF this, where eng = eng and n = "connectedSlots s"]
  obtain c' ext where
    "(udpSocketConnected eng ^^ connectedSlots s) (s\<lparr>socket := ConnectedState\<rparr>) =
       s\<lparr>socket := ConnectedState, crypto := c', effects := effects s @ ext\<rparr>"
    and "pings ext = []" "PingTimerStart \<notin> set ext"
    by auto
  then show ?thesis
    unfolding SocketConnected step.simps using assms by (simp add: new_effects_def)
next
  case (SocketReadyRead bytesRead buf)
  let ?d = "take (nat bytesRead) buf"
  obtain pt e1 where dd: "decryptDatagram eng (crypto s) (socket s) ?d = (pt, e1)"
    by (metis prod.exhaust)
  obtain ok psk e2 where dh: "doHandshake eng (crypto s) (socket s) ?d = (ok, psk, e2)"
    by (metis prod_cases3)
  let ?s2 = "s\<lparr>crypto := e2,
               effects := effects s @ psk_effects psk (name s) @
                 [CryptoDoHandshake (take (nat bytesRead) buf) ok,
                  EmitInfoMessage (tr_arg ''%1: encrypted connection established!'' [name s]),
                  PingTimerStart],
               pingTimer := (pingTimer s)\<lparr>active := True\<rparr>\<rparr>"
  obtain w e3 where wr:
    "writeDatagramEncrypted eng (crypto ?s2) (socket ?s2) (ping_message (name ?s2) (ping ?s2)) = (w, e3)"
    by (metis prod.exhaust)
  note hc = handshake_completes_ReadyRead [OF dh]
  consider "bytesRead \<le> 0" | "0 < bytesRead" "isConnectionEncrypted eng (crypto s)"
    | "0 < bytesRead" "\<not> isConnectionEncrypted eng (crypto s)" "\<not> (ok \<and> isConnectionEncrypted eng e2)"
    | "0 < bytesRead" "\<not> isConnectionEncrypted eng (crypto s)" "ok" "isConnectionEncrypted eng e2"
    by linarith
  then show ?thesis
  proof cases
    case 1
    then show ?thesis
      unfolding SocketReadyRead step.simps hc using assms
      by (simp add: readyRead_def emit_def new_effects_def)
  next
    case 2
    show ?thesis
      unfolding SocketReadyRead step.simps hc readyRead_decrypt_eq [OF 2 dd]
      using assms 2 by (simp add: new_effects_def)
  next
    case 3
    show ?thesis
      unfolding SocketReadyRead step.simps hc readyRead_handshake_eq [OF 3(1,2) dh]
      using assms 3
      by (auto simp add: new_effects_def pings_append pings_psk_effects PingTimerStart_psk_effects)
  next
    case 4
    have dec: "\<exists>X w' rest.
        psk_effects psk (name s) @
          [CryptoDoHandshake ?d ok,
           EmitInfoMessage (tr_arg ''%1: encrypted connection established!'' [name s]),
           PingTimerStart, CryptoWriteDatagramEncrypted (ping_message (name s) (ping s)) w] @ r =
        X @ [PingTimerStart, CryptoWriteDatagramEncrypted (ping_message (name s) (ping s)) w'] @ rest \<and>
        pings X = [] \<and> PingTimerStart \<notin> set X" for r
      apply (rule exI [of _ "psk_effects psk (name s) @
          [CryptoDoHandshake ?d ok,
           EmitInfoMessage (tr_arg ''%1: encrypted connection established!'' [name s])]"])
      apply (rule exI [of _ w])
      apply (rule exI [of _ r])
      apply (simp add: pings_append pings_psk_effects PingTimerStart_psk_effects)
      done
    note dec [of "[]"] dec [of "[EmitErrorMessage (tr_arg ''%1: failed to send a ping - %2''
                 [name s, dtlsErrorString eng e3]), PingTimerStop]"]
    then show ?thesis
      unfolding SocketReadyRead step.simps hc readyRead_handshake_eq [OF 4(1,2) dh]
        pingTimeout_eq [OF wr]
      using 4 by (simp add: new_effects_def)
  qed
next
  case CryptoHandshakeTimeout
  obtain ok e' where ht: "handleTimeout eng (crypto s) (socket s) = (ok, e')"
    by (metis prod.exhaust)
  show ?thesis
    unfolding CryptoHandshakeTimeout step.simps handshakeTimeout_eq [OF ht]
    using assms by (simp add: new_effects_def)
next
  case PingTimerTimeout
  show ?thesis
    unfolding PingTimerTimeout step.simps
    using assms by (simp add: new_effects_def)
qed

lemma run_inactive:
  "\<not> active (pingTimer s) \<Longrightarrow> no_reentry eng s evs \<Longrightarrow>
     pings (new_effects s (run eng s evs)) = [] \<and>
     PingTimerStart \<notin> set (new_effects s (run eng s evs)) \<and>
     \<not> active (pingTimer (run eng s evs)) \<and> ping (run eng s evs) = ping s"
proof (induction evs arbitrary: s)
  case Nil
  then show ?case by (simp add: new_effects_def)
next
  case (Cons ev evs)
  from Cons.prems have nc: "\<not> handshake_completes eng ev s"
    and nr: "no_reentry eng (step eng ev s) evs" by simp_all
  from step_inactive [OF Cons.prems(1), of eng ev] nc
  have 1: "pings (new_effects s (step eng ev s)) = []"
    "PingTimerStart \<notin> set (new_effects s (step eng ev s))"
    "\<not> active (pingTimer (step eng ev s))" "ping (step eng ev s) = ping s"
    by simp_all
  from Cons.IH [OF 1(3) nr] 1 show ?case
    by (simp add: run_Cons_new_effects pings_append)
qed

lemma run_first_ping:
  "\<not> active (pingTimer s) \<Longrightarrow>
     (pings (new_effects s (run eng s evs)) = [] \<and>
      PingTimerStart \<notin> set (new_effects s (run eng s evs)) \<and>
      \<not> active (pingTimer (run eng s evs)) \<and> ping (run eng s evs) = ping s) \<or>
     (\<exists>X w rest. new_effects s (run eng s evs) =
        X @ [PingTimerStart, CryptoWriteDatagramEncrypted (ping_message (name s) (ping s)) w] @ rest \<and>
        pings X = [] \<and> PingTimerStart \<notin> set X)"
proof (induction evs arbitrary: s)
  case Nil
  then show ?case by (simp add: new_effects_def)
next
  case (Cons ev evs)
  let ?s1 = "step eng ev s"
  let ?n1 = "new_effects s ?s1"
  let ?n2 = "new_effects ?s1 (run eng ?s1 evs)"
  have split: "new_effects s (run eng ?s1 evs) = ?n1 @ ?n2"
    by (rule run_Cons_new_effects)
  have nm: "name ?s1 = name s" using step_ping_shape [of eng ev s] by simp
  show ?case
  proof (cases "handshake_completes eng ev s")
    case True
    with step_inactive [OF Cons.prems, of eng ev] obtain X w rest where
      "?n1 = X @ [PingTimerStart,
                  CryptoWriteDatagramEncrypted (ping_message (name s) (ping s)) w] @ rest"
      "pings X = []" "PingTimerStart \<notin> set X"
      by blast
    then have "new_effects s (run eng ?s1 evs) =
        X @ [PingTimerStart,
             CryptoWriteDatagramEncrypted (ping_message (name s) (ping s)) w] @ (rest @ ?n2) \<and>
        pings X = [] \<and> PingTimerStart \<notin> set X"
      by (simp add: split)
    then show ?thesis unfolding run.simps by blast
  next
    case False
    with step_inactive [OF Cons.prems, of eng ev]
    have 1: "pings ?n1 = []" "PingTimerStart \<notin> set ?n1" "\<not> active (pingTimer ?s1)"
      "ping ?s1 = ping s"
      by simp_all
    from Cons.IH [OF 1(3)] consider
      (quiet) "pings ?n2 = []" "PingTimerStart \<notin> set ?n2"
        "\<not> active (pingTimer (run eng ?s1 evs))" "ping (run eng ?s1 evs) = ping ?s1"
      | (sent) X w rest where
        "?n2 = X @ [PingTimerStart,
                    CryptoWriteDatagramEncrypted (ping_message (name ?s1) (ping ?s1)) w] @ rest"
        "pings X = []" "PingTimerStart \<notin> set X"
      by blast
    then show ?thesis
    proof cases
      case quiet
      with 1 show ?thesis by (simp add: split pings_append)
    next
      case sent
      with 1 have "new_effects s (run eng ?s1 evs) =
          (?n1 @ X) @ [PingTimerStart,
               CryptoWriteDatagramEncrypted (ping_message (name s) (ping s)) w] @ rest \<and>
          pings (?n1 @ X) = [] \<and> PingTimerStart \<notin> set (?n1 @ X)"
        by (simp add: split nm pings_append)
      then show ?thesis unfolding run.simps by blast
    qed
  qed
qed

subsection \<open>Responses\<close>

lemma step_no_response:
  assumes "\<And>bytesRead buf. ev = SocketReadyRead bytesRead buf \<Longrightarrow>
             \<not> (0 < bytesRead \<and> isConnectionEncrypted eng (crypto s))"
  shows "filter is_response (new_effects s (step eng ev s)) = []"
proof (cases ev)
  case CallStartHandshake
  obtain ok psk e' where dh: "doHandshake eng (crypto s) ConnectedState [] = (ok, psk, e')"
    by (metis prod_cases3)
  show ?thesis
  proof (cases "socket s = ConnectedState")
    case True
    show ?thesis
      unfolding CallStartHandshake step.simps startHandshake_connected [OF True dh]
      by (simp add: new_effects_def filter_psk_effects)
  next
    case False
    show ?thesis
      unfolding CallStartHandshake step.simps startHandshake_unconnected [OF False]
      by (simp add: new_effects_def)
  qed
next
  case SocketConnected
  have "socket (s\<lparr>socket := ConnectedState\<rparr>) = ConnectedState" by simp
  from funpow_udpSocketConnected_frame [OF this, where eng = eng and n = "connectedSlots s"]
  obtain c' ext where
    "(udpSocketConnected eng ^^ connectedSlots s) (s\<lparr>socket := ConnectedState\<rparr>) =
       s\<lparr>socket := ConnectedState, crypto := c', effects := effects s @ ext\<rparr>"
    and "filter is_response ext = []"
    by auto
  then show ?thesis
    unfolding SocketConnected step.simps by (simp add: new_effects_def)
next
  case (SocketReadyRead bytesRead buf)
  let ?d = "take (nat bytesRead) buf"
  obtain ok psk e2 where dh: "doHandshake eng (crypto s) (socket s) ?d = (ok, psk, e2)"
    by (metis prod_cases3)
  let ?s2 = "s\<lparr>crypto := e2,
               effects := effects s @ psk_effects psk (name s) @
                 [CryptoDoHandshake (take (nat bytesRead) buf) ok,
                  EmitInfoMessage (tr_arg ''%1: encrypted connection established!'' [name s]),
                  PingTimerStart],
               pingTimer := (pingTimer s)\<lparr>active := True\<rparr>\<rparr>"
  obtain w e3 where wr:
    "writeDatagramEncrypted eng (crypto ?s2) (socket ?s2) (ping_message (name ?s2) (ping ?s2)) = (w, e3)"
    by (metis prod.exhaust)
  from assms [OF SocketReadyRead] consider "bytesRead \<le> 0"
    | "0 < bytesRead" "\<not> isConnectionEncrypted eng (crypto s)"
    by linarith
  then show ?thesis
  proof cases
    case 1
    then show ?thesis
      unfolding SocketReadyRead step.simps
      by (simp add: readyRead_def emit_def new_effects_def)
  next
    case 2
    show ?thesis
      unfolding SocketReadyRead step.simps readyRead_handshake_eq [OF 2 dh] pingTimeout_eq [OF wr]
      by (simp add: new_effects_def filter_psk_effects)
  qed
next
  case CryptoHandshakeTimeout
  obtain ok e' where ht: "handleTimeout eng (crypto s) (socket s) = (ok, e')"
    by (metis prod.exhaust)
  show ?thesis
    unfolding CryptoHandshakeTimeout step.simps handshakeTimeout_eq [OF ht]
    by (simp add: new_effects_def)
next
  case PingTimerTimeout
  obtain w e' where wr:
    "writeDatagramEncrypted eng (crypto s) (socket s) (ping_message (name s) (ping s)) = (w, e')"
    by (metis prod.exhaust)
  show ?thesis
    unfolding PingTimerTimeout step.simps pingTimeout_eq [OF wr]
    by (simp add: new_effects_def)
qed

lemma run_no_response:
  "(\<And>k. k \<le> length evs \<Longrightarrow> \<not> isConnectionEncrypted eng (crypto (run eng s (take k evs)))) \<Longrightarrow>
     filter is_response (new_effects s (run eng s evs)) = []"
proof (induction evs arbitrary: s)
  case Nil
  show ?case by (simp add: new_effects_def)
next
  case (Cons ev evs)
  from Cons.prems [of 0] have "\<not> isConnectionEncrypted eng (crypto s)" by simp
  then have 1: "filter is_response (new_effects s (step eng ev s)) = []"
    by (intro step_no_response) simp
  have "\<not> isConnectionEncrypted eng (crypto (run eng (step eng ev s) (take k evs)))"
    if "k \<le> length evs" for k
    using Cons.prems [of "Suc k"] that by simp
  from Cons.IH [OF this] 1 show ?case
    by (simp add: run_Cons_new_effects)
qed

subsection \<open>Runs on the small engine\<close>

lemma pings_map_write:
  "pings (map (\<lambda>k. CryptoWriteDatagramEncrypted (f k) w) ks) = map (\<lambda>k. (f k, w)) ks"
  by (induction ks) simp_all

lemma ping_numbers_append: "ping_numbers (xs @ ys) = ping_numbers xs @ ping_numbers ys"
  by (simp add: ping_numbers_def pings_append)

lemma sim_ticks:
  "sim_up (crypto s) \<Longrightarrow> active (pingTimer s) \<Longrightarrow>
     run sim_engine s (replicate n PingTimerTimeout) =
       s\<lparr>ping := ping s + of_nat n,
         effects := effects s @
           map (\<lambda>k. CryptoWriteDatagramEncrypted (ping_message (name s) (ping s + of_nat k)) 1)
             [0..<n]\<rparr>"
proof (induction n arbitrary: s)
  case 0
  show ?case by simp
next
  case (Suc n)
  let ?s1 = "s\<lparr>ping := ping s + 1,
                effects := effects s @
                  [CryptoWriteDatagramEncrypted (ping_message (name s) (ping s)) 1]\<rparr>"
  have wr: "writeDatagramEncrypted sim_engine (crypto s) (socket s)
              (ping_message (name s) (ping s)) = (1, crypto s)"
    using Suc.prems by (simp add: sim_engine_def)
  have 1: "step sim_engine PingTimerTimeout s = ?s1"
    using Suc.prems by (simp add: pingTimeout_eq [OF wr])
  have "sim_up (crypto ?s1)" "active (pingTimer ?s1)" using Suc.prems by simp_all
  from Suc.IH [OF this] have
    "run sim_engine ?s1 (replicate n PingTimerTimeout) =
       s\<lparr>ping := ping s + of_nat (Suc n),
         effects := effects s @
           map (\<lambda>k. CryptoWriteDatagramEncrypted (ping_message (name s) (ping s + of_nat k)) 1)
             [0..<Suc n]\<rparr>"
    by (simp add: map_upt_Suc add.assoc del: upt_Suc)
  then show ?case
    unfolding replicate_Suc run.simps 1 .
qed

lemma sim_handshake_then_ticks:
  "run sim_engine (on_sim sim_fresh) (SocketReadyRead 1 [1] # replicate n PingTimerTimeout) =
     (on_sim sim_secured)
       \<lparr>pingTimer := \<lparr>interval = 5000, active = True\<rparr>, ping := 1 + of_nat n,
        effects := psk_effects 1 ''client'' @
          [CryptoDoHandshake [1] True,
           EmitInfoMessage (tr_arg ''%1: encrypted connection established!'' [''client'']),
           PingTimerStart,
           CryptoWriteDatagramEncrypted (ping_message ''client'' 0) 1] @
          map (\<lambda>k. CryptoWriteDatagramEncrypted (ping_message ''client'' (1 + of_nat k)) 1)
            [0..<n]\<rparr>"
proof -
  let ?s1 = "(on_sim sim_secured)
       \<lparr>pingTimer := \<lparr>interval = 5000, active = True\<rparr>, ping := 1,
        effects := psk_effects 1 ''client'' @
          [CryptoDoHandshake [1] True,
           EmitInfoMessage (tr_arg ''%1: encrypted connection established!'' [''client'']),
           PingTimerStart,
           CryptoWriteDatagramEncrypted (ping_message ''client'' 0) 1]\<rparr>"
  have 1: "step sim_engine (SocketReadyRead 1 [1]) (on_sim sim_fresh) = ?s1"
    by (simp add: slot_simps sim_defs)
  have "sim_up (crypto ?s1)" "active (pingTimer ?s1)"
    by (simp_all add: sim_defs)
  from sim_ticks [OF this, of n] show ?thesis
    unfolding run.simps 1 by (simp add: sim_defs)
qed

lemma sim_run_succeeds:
  "pings_succeeded (effects (run sim_engine (on_sim sim_fresh)
     (SocketReadyRead 1 [1] # replicate n PingTimerTimeout)))"
  unfolding sim_handshake_then_ticks
  by (simp add: pings_succeeded_def pings_append pings_psk_effects pings_map_write
      list_all_iff)

lemma sim_run_numbers:
  "ping_numbers (effects (run sim_engine (on_sim sim_fresh)
     (SocketReadyRead 1 [1] # replicate n PingTimerTimeout))) =
   0 # map (\<lambda>k. unat (1 + of_nat k :: 32 word)) [0..<n]"
proof -
  have "ping_numbers (map (\<lambda>k. CryptoWriteDatagramEncrypted (ping_message nm (f k)) 1) ks) =
          map (\<lambda>k. unat (f k)) ks" for nm f and ks :: "nat list"
    by (rule ping_numbers_payloads [where nm = nm]) (simp add: pings_map_write comp_def)
  then show ?thesis
    unfolding sim_handshake_then_ticks
    by (simp add: ping_numbers_append)
      (simp add: ping_numbers_def pings_append pings_psk_effects unsigned_args_ping_message)
qed

subsection \<open>Repeated events\<close>

lemma run_append: "run eng s (xs @ ys) = run eng (run eng s xs) ys"
  by (induction xs arbitrary: s) simp_all

lemma run_timeouts_inactive:
  "\<not> active (pingTimer s) \<Longrightarrow> run eng s (replicate k PingTimerTimeout) = s"
  by (induction k) simp_all

lemma run_startHandshake_unconnected:
  "socket s \<noteq> ConnectedState \<Longrightarrow>
     run eng s (replicate n CallStartHandshake) =
       s\<lparr>connectedSlots := connectedSlots s + n,
         effects := effects s @
           concat (replicate n
             [EmitInfoMessage (tr_arg ''%1: connecting UDP socket first...'' [name s]),
              ConnectUdpSocketConnected])\<rparr>"
proof (induction n arbitrary: s)
  case 0
  show ?case by simp
next
  case (Suc n)
  let ?s1 = "s\<lparr>connectedSlots := Suc (connectedSlots s),
         effects := effects s @
           [EmitInfoMessage (tr_arg ''%1: connecting UDP socket first...'' [name s]),
            ConnectUdpSocketConnected]\<rparr>"
  have 1: "step eng CallStartHandshake s = ?s1"
    by (simp add: startHandshake_unconnected [OF Suc.prems])
  have "socket ?s1 \<noteq> ConnectedState" using Suc.prems by simp
  from Suc.IH [OF this] show ?case
    unfolding replicate_Suc run.simps 1 by simp
qed

lemma connecting_effects_quiet:
  "filter is_crypto_call (concat (replicate n [EmitInfoMessage m, ConnectUdpSocketConnected])) = []"
  "filter is_handshake_start (concat (replicate n [EmitInfoMessage m, ConnectUdpSocketConnected])) = []"
  by (induction n) simp_all

lemma connected_after_unconnected_calls:
  assumes "socket s \<noteq> ConnectedState"
  shows "length (filter is_handshake_start
           (new_effects (run eng s (replicate n CallStartHandshake))
              (run eng s (replicate n CallStartHandshake @ [SocketConnected])))) =
         connectedSlots s + n \<and>
         count_list
           (new_effects (run eng s (replicate n CallStartHandshake))
              (run eng s (replicate n CallStartHandshake @ [SocketConnected])))
           (EmitInfoMessage
             (tr_arg ''%1: UDP socket is now in connected state, continue with handshake...''
                [name s])) = connectedSlots s + n"
proof -
  let ?sN = "run eng s (replicate n CallStartHandshake)"
  have sN: "connectedSlots ?sN = connectedSlots s + n" "name ?sN = name s"
    by (simp_all add: run_startHandshake_unconnected [OF assms])
  have "socket (?sN\<lparr>socket := ConnectedState\<rparr>) = ConnectedState" by simp
  from funpow_udpSocketConnected_frame [OF this, where eng = eng and n = "connectedSlots ?sN"]
  obtain c' ext where
    eq: "(udpSocketConnected eng ^^ connectedSlots ?sN) (?sN\<lparr>socket := ConnectedState\<rparr>) =
       ?sN\<lparr>socket := ConnectedState, crypto := c', effects := effects ?sN @ ext\<rparr>"
    and cnt: "length (filter is_handshake_start ext) = connectedSlots ?sN"
      "count_list ext (EmitInfoMessage
         (tr_arg ''%1: UDP socket is now in connected state, continue with handshake...''
            [name ?sN])) = connectedSlots ?sN"
    by auto
  have "new_effects ?sN (run eng s (replicate n CallStartHandshake @ [SocketConnected])) = ext"
    unfolding run_append by (simp add: eq new_effects_def)
  with cnt sN show ?thesis by simp
qed

text \<open>
  With the timer inactive, a run hands a ping to the engine exactly if somewhere in it a
  datagram completes a handshake.
\<close>

lemma run_inactive_iff:
  "\<not> active (pingTimer s) \<Longrightarrow>
     (pings (new_effects s (run eng s evs)) = []) = no_reentry eng s evs"
proof (induction evs arbitrary: s)
  case Nil
  show ?case by (simp add: new_effects_def)
next
  case (Cons ev evs)
  let ?s1 = "step eng ev s"
  show ?case
  proof (cases "handshake_completes eng ev s")
    case True
    with step_inactive [OF Cons.prems, of eng ev] obtain X w rest where
      "new_effects s ?s1 = X @ [PingTimerStart,
          CryptoWriteDatagramEncrypted (ping_message (name s) (ping s)) w] @ rest"
      by blast
    then have "pings (new_effects s ?s1) \<noteq> []"
      by (simp add: pings_append)
    with True show ?thesis
      by (simp add: run_Cons_new_effects pings_append)
  next
    case False
    with step_inactive [OF Cons.prems, of eng ev]
    have 1: "pings (new_effects s ?s1) = []" "\<not> active (pingTimer ?s1)"
      by simp_all
    from Cons.IH [OF 1(2)] 1(1) False show ?thesis
      by (simp add: run_Cons_new_effects pings_append)
  qed
qed

lemmas lossy_defs = lossy_engine_def on_lossy_def DtlsAssociation_ctor_def

section \<open>Properties of the association\<close>

text \<open>
  The class keeps no state variable: the specification's \<open>Idle\<close>, \<open>Handshaking\<close>,
  \<open>Connected\<close>, \<open>Closed\<close> and \<open>Failed\<close> name configurations of the members (is the
  engine encrypted, is the keepalive timer active, is the socket open). The theorems state
  what a slot does to these members and to the outside.
\<close>

text \<open>
  C8. A read notification whose \<open>readDatagram\<close> returns zero or a negative length makes
  \<open>readyRead\<close> emit the warning "spurious read notification?" and nothing else: every
  member keeps its value, the engine is not called, no other signal is emitted.
\<close>

theorem readyRead_spurious:
  "bytesRead \<le> 0 \<Longrightarrow>
     readyRead eng bytesRead buf s =
       s\<lparr>effects := effects s @
           [EmitWarningMessage (tr_arg ''%1: spurious read notification?'' [name s])]\<rparr> \<and>
     filter is_signal (new_effects s (readyRead eng bytesRead buf s)) =
       [EmitWarningMessage (tr_arg ''%1: spurious read notification?'' [name s])] \<and>
     filter is_crypto_call (new_effects s (readyRead eng bytesRead buf s)) = []"
  by (simp add: readyRead_def emit_def new_effects_def)

theorem readyRead_spurious_witness:
  "(- 1 :: int) \<le> 0 \<and>
   readyRead sim_engine (- 1) [] (on_sim sim_secured) =
     (on_sim sim_secured)\<lparr>effects :=
        [EmitWarningMessage (QFormat ''%1: spurious read notification?'' [[QS ''client'']])]\<rparr>"
  using readyRead_spurious [of "- 1" sim_engine "[]" "on_sim sim_secured"]
  by (simp add: sim_defs tr_arg_def)

text \<open>
  C7. While the engine is encrypted, a datagram that decrypts to a non-empty plaintext
  makes \<open>readyRead\<close> emit exactly one signal, \<open>serverResponse\<close> with the name, the
  datagram as read and the plaintext. Socket, timer, counter and connections keep their
  values; only the engine has moved on by the decryption.
\<close>

theorem readyRead_response:
  "0 < bytesRead \<Longrightarrow> isConnectionEncrypted eng (crypto s) \<Longrightarrow>
   decryptDatagram eng (crypto s) (socket s) (take (nat bytesRead) buf) = (plainText, e') \<Longrightarrow>
   plainText \<noteq> [] \<Longrightarrow>
     readyRead eng bytesRead buf s =
       s\<lparr>crypto := e',
         effects := effects s @
           [CryptoDecryptDatagram (take (nat bytesRead) buf) plainText,
            EmitServerResponse (name s) (take (nat bytesRead) buf) plainText]\<rparr> \<and>
     filter is_signal (new_effects s (readyRead eng bytesRead buf s)) =
       [EmitServerResponse (name s) (take (nat bytesRead) buf) plainText]"
  by (simp add: readyRead_decrypt_eq new_effects_def)

theorem readyRead_response_witness:
  "(0::int) < 3 \<and> isConnectionEncrypted sim_engine (crypto (on_sim sim_secured)) \<and>
   decryptDatagram sim_engine (crypto (on_sim sim_secured)) (socket (on_sim sim_secured))
     (take (nat 3) [7, 8, 9, 10]) = ([8, 9], sim_secured) \<and>
   [8, 9 :: 8 word] \<noteq> [] \<and>
   filter is_signal (new_effects (on_sim sim_secured)
     (readyRead sim_engine 3 [7, 8, 9, 10] (on_sim sim_secured))) =
     [EmitServerResponse ''client'' [7, 8, 9] [8, 9]]"
  using readyRead_response [of 3 sim_engine "on_sim sim_secured" "[7, 8, 9, 10]" "[8, 9]" sim_secured]
  by (simp add: sim_defs new_effects_def tr_arg_def)

text \<open>
  C4, as the code has it. On every expiry of the engine's retransmission timer
  \<open>handshakeTimeout\<close> emits the warning "handshake timeout, trying to re-transmit" and
  calls the engine's \<open>handleTimeout\<close> once. When the call succeeds that warning is the
  only signal; when it fails, an error with the engine's error string follows the warning.
  Nothing else happens in either case: apart from the record of effects, the association
  after the slot is the association before it with the engine moved on, so a failure is
  stored nowhere and later datagrams and timeouts are handled as they were before.
\<close>

theorem handshakeTimeout_retransmits:
  "handleTimeout eng (crypto s) (socket s) = (ok, e') \<Longrightarrow>
     handshakeTimeout eng s =
       s\<lparr>crypto := e',
         effects := effects s @
           [EmitWarningMessage (tr_arg ''%1: handshake timeout, trying to re-transmit'' [name s]),
            CryptoHandleTimeout ok] @
           (if ok then []
            else [EmitErrorMessage (tr_arg ''%1: failed to re-transmit - %2''
                    [name s, dtlsErrorString eng e'])])\<rparr> \<and>
     filter is_crypto_call (new_effects s (handshakeTimeout eng s)) = [CryptoHandleTimeout ok] \<and>
     filter is_signal (new_effects s (handshakeTimeout eng s)) =
       (if ok then
          [EmitWarningMessage (tr_arg ''%1: handshake timeout, trying to re-transmit'' [name s])]
        else
          [EmitWarningMessage (tr_arg ''%1: handshake timeout, trying to re-transmit'' [name s]),
           EmitErrorMessage (tr_arg ''%1: failed to re-transmit - %2''
             [name s, dtlsErrorString eng e'])]) \<and>
     (handshakeTimeout eng s)\<lparr>effects := effects s\<rparr> = s\<lparr>crypto := e'\<rparr>"
  by (simp add: handshakeTimeout_eq new_effects_def)

theorem handshakeTimeout_retransmits_witness:
  "handleTimeout sim_engine (crypto (on_sim sim_fresh)) (socket (on_sim sim_fresh)) =
     (True, sim_fresh) \<and>
   filter is_signal (new_effects (on_sim sim_fresh) (handshakeTimeout sim_engine (on_sim sim_fresh))) =
     [EmitWarningMessage (tr_arg ''%1: handshake timeout, trying to re-transmit'' [''client''])] \<and>
   handleTimeout lossy_engine (crypto (run lossy_engine on_lossy [CallStartHandshake]))
     (socket (run lossy_engine on_lossy [CallStartHandshake])) =
     (False, \<lparr>l_encrypted = False, l_credit = 0, l_error = TlsFatalError\<rparr>) \<and>
   filter is_signal (new_effects (run lossy_engine on_lossy [CallStartHandshake])
     (handshakeTimeout lossy_engine (run lossy_engine on_lossy [CallStartHandshake]))) =
     [EmitWarningMessage (tr_arg ''%1: handshake timeout, trying to re-transmit'' [''client'']),
      EmitErrorMessage (tr_arg ''%1: failed to re-transmit - %2'' [''client'', ''engine error''])] \<and>
   (handshakeTimeout lossy_engine (run lossy_engine on_lossy [CallStartHandshake]))
     \<lparr>effects := []\<rparr> =
     on_lossy\<lparr>crypto := \<lparr>l_encrypted = False, l_credit = 0, l_error = TlsFatalError\<rparr>\<rparr>"
  using handshakeTimeout_retransmits [of sim_engine "on_sim sim_fresh" True sim_fresh]
    handshakeTimeout_retransmits [of lossy_engine "run lossy_engine on_lossy [CallStartHandshake]"
      False "\<lparr>l_encrypted = False, l_credit = 0, l_error = TlsFatalError\<rparr>"]
  by (simp add: sim_defs lossy_defs slot_simps psk_effects_def new_effects_def tr_arg_def)

text \<open>
  C4 as the specification states it fails: a failed retransmission does not put the
  association into a final state. On the engine that loses its connection the handshake is
  started, the retransmission fails and the error is emitted; the peer's datagram then
  completes the handshake, the keepalive timer runs and the pings 0 and 1 are sent.
\<close>

theorem handshakeTimeout_failure_not_final:
  "new_effects (run lossy_engine on_lossy [CallStartHandshake])
     (run lossy_engine on_lossy [CallStartHandshake, CryptoHandshakeTimeout]) =
     [EmitWarningMessage (tr_arg ''%1: handshake timeout, trying to re-transmit'' [''client'']),
      CryptoHandleTimeout False,
      EmitErrorMessage (tr_arg ''%1: failed to re-transmit - %2'' [''client'', ''engine error''])] \<and>
   isConnectionEncrypted lossy_engine (crypto (run lossy_engine on_lossy
     [CallStartHandshake, CryptoHandshakeTimeout, SocketReadyRead 2 [5, 6], PingTimerTimeout])) \<and>
   active (pingTimer (run lossy_engine on_lossy
     [CallStartHandshake, CryptoHandshakeTimeout, SocketReadyRead 2 [5, 6], PingTimerTimeout])) \<and>
   pings (effects (run lossy_engine on_lossy
     [CallStartHandshake, CryptoHandshakeTimeout, SocketReadyRead 2 [5, 6], PingTimerTimeout])) =
     [(ping_message ''client'' 0, 1), (ping_message ''client'' 1, 1)]"
  by (simp add: lossy_defs slot_simps psk_effects_def new_effects_def tr_arg_def Let_def
      ping_message_def)

text \<open>
  C6. The destructor calls the engine's \<open>shutdown\<close> on the socket if and only if the
  engine is encrypted at that moment. When it is not, the destructor body does nothing at
  all: no call reaches the engine or the socket.
\<close>

theorem destructor_shutdown_iff_encrypted:
  "(CryptoShutdown (fst (shutdown eng (crypto s) (socket s)))
      \<in> set (new_effects s (DtlsAssociation_dtor eng s))) =
     isConnectionEncrypted eng (crypto s) \<and>
   new_effects s (DtlsAssociation_dtor eng s) =
     (if isConnectionEncrypted eng (crypto s)
      then [CryptoShutdown (fst (shutdown eng (crypto s) (socket s)))] else []) \<and>
   (\<not> isConnectionEncrypted eng (crypto s) \<longrightarrow> DtlsAssociation_dtor eng s = s)"
  by (simp add: DtlsAssociation_dtor_def new_effects_def split: prod.splits)

theorem destructor_shutdown_iff_encrypted_witness:
  "isConnectionEncrypted sim_engine (crypto (on_sim sim_secured)) \<and>
   new_effects (on_sim sim_secured) (DtlsAssociation_dtor sim_engine (on_sim sim_secured)) =
     [CryptoShutdown True] \<and>
   \<not> isConnectionEncrypted sim_engine (crypto (on_sim sim_fresh)) \<and>
   DtlsAssociation_dtor sim_engine (on_sim sim_fresh) = on_sim sim_fresh"
  using destructor_shutdown_iff_encrypted [of sim_engine "on_sim sim_secured"]
    destructor_shutdown_iff_encrypted [of sim_engine "on_sim sim_fresh"]
  by (simp add: sim_defs new_effects_def tr_arg_def)




text \<open>
  C3, as the code has it. A keepalive tick whose encrypted send returns \<open>written \<le> 0\<close>
  emits exactly one signal, the error "failed to send a ping" with the engine's error
  string, stops the keepalive timer and leaves \<open>ping\<close> as it was. The association stores
  nothing else about the failure. Afterwards the timer's period may elapse any number of
  times without a send. In any continuation of the run a ping is sent exactly if a datagram
  is read on which the engine completes a handshake; as long as none is, the timer stays
  inactive and \<open>ping\<close> keeps its value.
\<close>

theorem pingTimeout_failure_stops_timer:
  "writeDatagramEncrypted eng (crypto s) (socket s) (ping_message (name s) (ping s)) =
     (written, e') \<Longrightarrow>
   written \<le> 0 \<Longrightarrow>
     pingTimeout eng s =
       s\<lparr>crypto := e', pingTimer := (pingTimer s)\<lparr>active := False\<rparr>,
         effects := effects s @
           [CryptoWriteDatagramEncrypted (ping_message (name s) (ping s)) written,
            EmitErrorMessage (tr_arg ''%1: failed to send a ping - %2''
              [name s, dtlsErrorString eng e']),
            PingTimerStop]\<rparr> \<and>
     filter is_signal (new_effects s (pingTimeout eng s)) =
       [EmitErrorMessage (tr_arg ''%1: failed to send a ping - %2''
          [name s, dtlsErrorString eng e'])] \<and>
     ping (pingTimeout eng s) = ping s \<and>
     run eng (pingTimeout eng s) (replicate k PingTimerTimeout) = pingTimeout eng s \<and>
     (pings (new_effects (pingTimeout eng s) (run eng (pingTimeout eng s) evs)) = []) =
       no_reentry eng (pingTimeout eng s) evs \<and>
     (no_reentry eng (pingTimeout eng s) evs \<longrightarrow>
        \<not> active (pingTimer (run eng (pingTimeout eng s) evs)) \<and>
        ping (run eng (pingTimeout eng s) evs) = ping s)"
proof -
  assume wr: "writeDatagramEncrypted eng (crypto s) (socket s)
                (ping_message (name s) (ping s)) = (written, e')"
    and w: "written \<le> 0"
  let ?s' = "s\<lparr>crypto := e', pingTimer := (pingTimer s)\<lparr>active := False\<rparr>,
         effects := effects s @
           [CryptoWriteDatagramEncrypted (ping_message (name s) (ping s)) written,
            EmitErrorMessage (tr_arg ''%1: failed to send a ping - %2''
              [name s, dtlsErrorString eng e']),
            PingTimerStop]\<rparr>"
  have eq: "pingTimeout eng s = ?s'"
    using w by (simp add: pingTimeout_eq [OF wr])
  have off: "\<not> active (pingTimer ?s')" by simp
  from run_inactive [OF off, of eng evs] run_inactive_iff [OF off, of eng evs]
    run_timeouts_inactive [OF off, of eng k]
  show ?thesis
    unfolding eq by (simp add: new_effects_def)
qed

theorem pingTimeout_failure_stops_timer_witness:
  "active (pingTimer (run lossy_engine on_lossy [SocketReadyRead 2 [5, 6], PingTimerTimeout])) \<and>
   ping (run lossy_engine on_lossy [SocketReadyRead 2 [5, 6], PingTimerTimeout]) = 2 \<and>
   writeDatagramEncrypted lossy_engine
     (crypto (run lossy_engine on_lossy [SocketReadyRead 2 [5, 6], PingTimerTimeout]))
     (socket (run lossy_engine on_lossy [SocketReadyRead 2 [5, 6], PingTimerTimeout]))
     (ping_message ''client'' 2) =
     (- 1, \<lparr>l_encrypted = False, l_credit = 0, l_error = TlsFatalError\<rparr>) \<and>
   (- 1 :: int) \<le> 0 \<and>
   \<not> active (pingTimer (pingTimeout lossy_engine
     (run lossy_engine on_lossy [SocketReadyRead 2 [5, 6], PingTimerTimeout]))) \<and>
   ping (pingTimeout lossy_engine
     (run lossy_engine on_lossy [SocketReadyRead 2 [5, 6], PingTimerTimeout])) = 2 \<and>
   no_reentry lossy_engine
     (pingTimeout lossy_engine
        (run lossy_engine on_lossy [SocketReadyRead 2 [5, 6], PingTimerTimeout]))
     [PingTimerTimeout, SocketReadyRead 0 [7], CryptoHandshakeTimeout, PingTimerTimeout] \<and>
   \<not> active (pingTimer (run lossy_engine
     (pingTimeout lossy_engine
        (run lossy_engine on_lossy [SocketReadyRead 2 [5, 6], PingTimerTimeout]))
     [PingTimerTimeout, SocketReadyRead 0 [7], CryptoHandshakeTimeout, PingTimerTimeout])) \<and>
   \<not> no_reentry lossy_engine
     (pingTimeout lossy_engine
        (run lossy_engine on_lossy [SocketReadyRead 2 [5, 6], PingTimerTimeout]))
     [SocketReadyRead 2 [5, 6]] \<and>
   pings (new_effects
     (pingTimeout lossy_engine
        (run lossy_engine on_lossy [SocketReadyRead 2 [5, 6], PingTimerTimeout]))
     (run lossy_engine
        (pingTimeout lossy_engine
           (run lossy_engine on_lossy [SocketReadyRead 2 [5, 6], PingTimerTimeout]))
        [SocketReadyRead 2 [5, 6]])) \<noteq> []"
  using pingTimeout_failure_stops_timer
      [of lossy_engine "run lossy_engine on_lossy [SocketReadyRead 2 [5, 6], PingTimerTimeout]"
        "- 1" "\<lparr>l_encrypted = False, l_credit = 0, l_error = TlsFatalError\<rparr>" 2
        "[PingTimerTimeout, SocketReadyRead 0 [7], CryptoHandshakeTimeout, PingTimerTimeout]"]
    pingTimeout_failure_stops_timer
      [of lossy_engine "run lossy_engine on_lossy [SocketReadyRead 2 [5, 6], PingTimerTimeout]"
        "- 1" "\<lparr>l_encrypted = False, l_credit = 0, l_error = TlsFatalError\<rparr>" 2
        "[SocketReadyRead 2 [5, 6]]"]
  by (simp add: lossy_defs new_effects_def tr_arg_def slot_simps psk_effects_def Let_def
      ping_message_def)

text \<open>
  C3 as the specification states it fails: sends do occur after a failed one. On the
  engine that loses its connection the handshake completes, the pings 0 and 1 are sent and
  the third tick fails: the error is emitted and the timer stopped. The peer's next datagram
  completes a handshake again, the timer is restarted, and ping 2 is sent at once and ping 3
  on the next tick.
\<close>

theorem pingTimeout_failure_not_final:
  "active (pingTimer (run lossy_engine on_lossy [SocketReadyRead 2 [5, 6], PingTimerTimeout])) \<and>
   new_effects (run lossy_engine on_lossy [SocketReadyRead 2 [5, 6], PingTimerTimeout])
     (run lossy_engine on_lossy [SocketReadyRead 2 [5, 6], PingTimerTimeout, PingTimerTimeout]) =
     [CryptoWriteDatagramEncrypted (ping_message ''client'' 2) (- 1),
      EmitErrorMessage (tr_arg ''%1: failed to send a ping - %2'' [''client'', ''engine error'']),
      PingTimerStop] \<and>
   \<not> active (pingTimer (run lossy_engine on_lossy
     [SocketReadyRead 2 [5, 6], PingTimerTimeout, PingTimerTimeout])) \<and>
   active (pingTimer (run lossy_engine on_lossy
     [SocketReadyRead 2 [5, 6], PingTimerTimeout, PingTimerTimeout,
      SocketReadyRead 2 [5, 6], PingTimerTimeout])) \<and>
   pings (new_effects
     (run lossy_engine on_lossy [SocketReadyRead 2 [5, 6], PingTimerTimeout, PingTimerTimeout])
     (run lossy_engine on_lossy
        [SocketReadyRead 2 [5, 6], PingTimerTimeout, PingTimerTimeout,
         SocketReadyRead 2 [5, 6], PingTimerTimeout])) =
     [(ping_message ''client'' 2, 1), (ping_message ''client'' 3, 1)]"
  by (simp add: lossy_defs new_effects_def tr_arg_def slot_simps psk_effects_def Let_def
      ping_message_def)

text \<open>
  C9. \<open>serverResponse\<close> is emitted only while the engine is encrypted. A step of the
  event loop adds a response to the record only if it is \<open>readyRead\<close> on a datagram of
  positive length with the engine encrypted when the slot is entered. A datagram read while
  the engine is not encrypted is handed to \<open>doHandshake\<close> and to no other engine
  operation (the only other engine call the slot can make is the ping, which does not carry
  the datagram). Hence a run in which the engine is encrypted at no point emits no response.
\<close>

theorem response_only_while_encrypted:
  "(filter is_response (new_effects s (step eng ev s)) \<noteq> [] \<longrightarrow>
      (\<exists>bytesRead buf. ev = SocketReadyRead bytesRead buf \<and> 0 < bytesRead \<and>
         isConnectionEncrypted eng (crypto s))) \<and>
   (0 < n \<and> \<not> isConnectionEncrypted eng (crypto s) \<and>
    doHandshake eng (crypto s) (socket s) (take (nat n) dg) = (ok, psk, e') \<longrightarrow>
      filter is_response (new_effects s (readyRead eng n dg s)) = [] \<and>
      filter (\<lambda>e. is_crypto_call e \<and> \<not> is_ping e) (new_effects s (readyRead eng n dg s)) =
        [CryptoDoHandshake (take (nat n) dg) ok]) \<and>
   ((\<forall>k \<le> length evs. \<not> isConnectionEncrypted eng (crypto (run eng s (take k evs)))) \<longrightarrow>
      filter is_response (new_effects s (run eng s evs)) = [])"
proof (intro conjI impI)
  assume "filter is_response (new_effects s (step eng ev s)) \<noteq> []"
  with step_no_response [of ev eng s]
  show "\<exists>bytesRead buf. ev = SocketReadyRead bytesRead buf \<and> 0 < bytesRead \<and>
          isConnectionEncrypted eng (crypto s)"
    by blast
next
  assume a: "0 < n \<and> \<not> isConnectionEncrypted eng (crypto s) \<and>
    doHandshake eng (crypto s) (socket s) (take (nat n) dg) = (ok, psk, e')"
  then have "filter is_response (new_effects s (step eng (SocketReadyRead n dg) s)) = []"
    by (intro step_no_response) simp
  then show "filter is_response (new_effects s (readyRead eng n dg s)) = []" by simp
  let ?s2 = "s\<lparr>crypto := e',
               effects := effects s @ psk_effects psk (name s) @
                 [CryptoDoHandshake (take (nat n) dg) ok,
                  EmitInfoMessage (tr_arg ''%1: encrypted connection established!'' [name s]),
                  PingTimerStart],
               pingTimer := (pingTimer s)\<lparr>active := True\<rparr>\<rparr>"
  obtain w e3 where wr:
    "writeDatagramEncrypted eng (crypto ?s2) (socket ?s2) (ping_message (name ?s2) (ping ?s2)) = (w, e3)"
    by (metis prod.exhaust)
  have q: "filter (\<lambda>e. is_crypto_call e \<and> \<not> is_ping e) (psk_effects psk (name s)) = []"
    by (auto simp: filter_empty_conv dest!: psk_effects_set)
  from a have a': "0 < n" "\<not> isConnectionEncrypted eng (crypto s)"
    "doHandshake eng (crypto s) (socket s) (take (nat n) dg) = (ok, psk, e')"
    by simp_all
  show "filter (\<lambda>e. is_crypto_call e \<and> \<not> is_ping e) (new_effects s (readyRead eng n dg s)) =
        [CryptoDoHandshake (take (nat n) dg) ok]"
    unfolding readyRead_handshake_eq [OF a'] pingTimeout_eq [OF wr]
    by (simp add: new_effects_def q)
next
  assume "\<forall>k \<le> length evs. \<not> isConnectionEncrypted eng (crypto (run eng s (take k evs)))"
  then show "filter is_response (new_effects s (run eng s evs)) = []"
    by (intro run_no_response) simp
qed

theorem response_only_while_encrypted_witness:
  "filter is_response (new_effects (on_sim sim_secured)
     (step sim_engine (SocketReadyRead 2 [5, 6]) (on_sim sim_secured))) \<noteq> [] \<and>
   isConnectionEncrypted sim_engine (crypto (on_sim sim_secured)) \<and>
   (0::int) < 2 \<and> \<not> isConnectionEncrypted sim_engine (crypto (on_sim sim_fresh)) \<and>
   filter (\<lambda>e. is_crypto_call e \<and> \<not> is_ping e)
     (new_effects (on_sim sim_fresh) (readyRead sim_engine 2 [5, 6] (on_sim sim_fresh))) =
     [CryptoDoHandshake [5, 6] True] \<and>
   \<not> isConnectionEncrypted sim_engine
     (crypto (run sim_engine (on_sim sim_fresh) (take 0 [CallStartHandshake]))) \<and>
   \<not> isConnectionEncrypted sim_engine
     (crypto (run sim_engine (on_sim sim_fresh) (take 1 [CallStartHandshake]))) \<and>
   filter is_response (new_effects (on_sim sim_fresh)
     (run sim_engine (on_sim sim_fresh) [CallStartHandshake])) = []"
  using response_only_while_encrypted [of "on_sim sim_secured" sim_engine "SocketReadyRead 2 [5, 6]"
      2 "[5, 6]" True 1 sim_secured "[]"]
    response_only_while_encrypted [of "on_sim sim_fresh" sim_engine "SocketReadyRead 2 [5, 6]"
      2 "[5, 6]" True 1 sim_secured "[CallStartHandshake]"]
  by (simp add: sim_defs new_effects_def tr_arg_def slot_simps ping_message_def Let_def
      psk_effects_def)

text \<open>
  C10. A call of \<open>startHandshake\<close> while the socket is not in \<open>ConnectedState\<close> emits
  "connecting UDP socket first...", makes one more connection from the socket's
  \<open>connected\<close> signal to \<open>udpSocketConnected\<close>, and calls no engine operation. The
  connections add up: after \<open>n\<close> such calls on a new association, one \<open>connected\<close>
  signal runs \<open>udpSocketConnected\<close> \<open>n\<close> times and starts the handshake \<open>n\<close> times.
\<close>

theorem startHandshake_registrations_add_up:
  "socket s \<noteq> ConnectedState \<Longrightarrow>
     startHandshake eng s =
       s\<lparr>connectedSlots := Suc (connectedSlots s),
         effects := effects s @
           [EmitInfoMessage (tr_arg ''%1: connecting UDP socket first...'' [name s]),
            ConnectUdpSocketConnected]\<rparr> \<and>
     connectedSlots (run eng s (replicate n CallStartHandshake)) = connectedSlots s + n \<and>
     filter is_crypto_call (new_effects s (run eng s (replicate n CallStartHandshake))) = [] \<and>
     length (filter is_handshake_start
       (new_effects (run eng s (replicate n CallStartHandshake))
          (run eng s (replicate n CallStartHandshake @ [SocketConnected])))) =
       connectedSlots s + n \<and>
     count_list
       (new_effects (run eng s (replicate n CallStartHandshake))
          (run eng s (replicate n CallStartHandshake @ [SocketConnected])))
       (EmitInfoMessage
         (tr_arg ''%1: UDP socket is now in connected state, continue with handshake...''
            [name s])) = connectedSlots s + n \<and>
     (connectedSlots s = 0 \<and> effects s = [] \<longrightarrow>
        length (filter is_handshake_start
          (effects (run eng s (replicate n CallStartHandshake @ [SocketConnected])))) = n)"
proof -
  assume a: "socket s \<noteq> ConnectedState"
  let ?sN = "run eng s (replicate n CallStartHandshake)"
  let ?s' = "run eng s (replicate n CallStartHandshake @ [SocketConnected])"
  note rN = run_startHandshake_unconnected [OF a, of eng n]
  note cnt = connected_after_unconnected_calls [OF a, of eng n]
  have g: "effects ?s' = effects ?sN @ new_effects ?sN ?s'"
    unfolding run_append using run_grows [of eng ?sN "[SocketConnected]"] by simp
  have new_sN: "new_effects s ?sN = concat (replicate n
             [EmitInfoMessage (tr_arg ''%1: connecting UDP socket first...'' [name s]),
              ConnectUdpSocketConnected])"
    by (simp add: rN new_effects_def)
  have "connectedSlots s = 0 \<and> effects s = [] \<longrightarrow>
        length (filter is_handshake_start (effects ?s')) = n"
  proof
    assume z: "connectedSlots s = 0 \<and> effects s = []"
    then have "effects ?sN = new_effects s ?sN" by (simp add: new_effects_def)
    then have "filter is_handshake_start (effects ?sN) = []"
      by (simp only: new_sN connecting_effects_quiet)
    with cnt z show "length (filter is_handshake_start (effects ?s')) = n"
      by (simp add: g)
  qed
  with cnt show ?thesis
    by (simp add: startHandshake_unconnected [OF a] new_sN connecting_effects_quiet)
      (simp add: rN)
qed

theorem startHandshake_registrations_add_up_witness:
  "socket (DtlsAssociation_ctor sim_fresh ConnectingState ''client'') \<noteq> ConnectedState \<and>
   connectedSlots (DtlsAssociation_ctor sim_fresh ConnectingState ''client'') = 0 \<and>
   effects (DtlsAssociation_ctor sim_fresh ConnectingState ''client'') = [] \<and>
   length (filter is_handshake_start
     (effects (run sim_engine (DtlsAssociation_ctor sim_fresh ConnectingState ''client'')
        (replicate 3 CallStartHandshake @ [SocketConnected])))) = 3"
  using startHandshake_registrations_add_up
    [of "DtlsAssociation_ctor sim_fresh ConnectingState ''client''" sim_engine 3]
  by (simp add: DtlsAssociation_ctor_def)

text \<open>
  C2. When \<open>readyRead\<close> continues the handshake with a datagram and finds the engine
  encrypted afterwards, it emits the information "encrypted connection established!",
  starts the keepalive timer and runs \<open>pingTimeout\<close> at once, in this order: the ping
  with the current value of \<open>ping\<close> is handed to the engine directly after the timer start.
  In every run of a new association the timer is inactive as long as no ping has been sent,
  so no timer-driven tick can come first; and the first ping ever sent carries 0 and
  directly follows the first start of the timer.
\<close>

theorem handshake_completion_starts_keepalive:
  "(0 < bytesRead \<and> \<not> isConnectionEncrypted eng (crypto s) \<and>
    doHandshake eng (crypto s) (socket s) (take (nat bytesRead) buf) = (True, psk, e') \<and>
    isConnectionEncrypted eng e' \<and>
    writeDatagramEncrypted eng e' (socket s) (ping_message (name s) (ping s)) = (w, e'') \<longrightarrow>
      new_effects s (readyRead eng bytesRead buf s) =
        psk_effects psk (name s) @
        [CryptoDoHandshake (take (nat bytesRead) buf) True,
         EmitInfoMessage (tr_arg ''%1: encrypted connection established!'' [name s]),
         PingTimerStart,
         CryptoWriteDatagramEncrypted (ping_message (name s) (ping s)) w] @
        (if w \<le> 0 then
           [EmitErrorMessage (tr_arg ''%1: failed to send a ping - %2''
              [name s, dtlsErrorString eng e'']),
            PingTimerStop]
         else []) \<and>
      active (pingTimer (readyRead eng bytesRead buf s)) = (0 < w) \<and>
      ping (readyRead eng bytesRead buf s) = (if 0 < w then ping s + 1 else ping s)) \<and>
   (pings (effects (run eng (DtlsAssociation_ctor e0 st0 nm) evs)) = [] \<longrightarrow>
      \<not> active (pingTimer (run eng (DtlsAssociation_ctor e0 st0 nm) evs)) \<and>
      PingTimerStart \<notin> set (effects (run eng (DtlsAssociation_ctor e0 st0 nm) evs))) \<and>
   (pings (effects (run eng (DtlsAssociation_ctor e0 st0 nm) evs)) \<noteq> [] \<longrightarrow>
      (\<exists>before w1 after.
         effects (run eng (DtlsAssociation_ctor e0 st0 nm) evs) =
           before @
           [PingTimerStart, CryptoWriteDatagramEncrypted (ping_message nm 0) w1] @ after \<and>
         pings before = [] \<and> PingTimerStart \<notin> set before))"
proof (intro conjI impI)
  assume a: "0 < bytesRead \<and> \<not> isConnectionEncrypted eng (crypto s) \<and>
    doHandshake eng (crypto s) (socket s) (take (nat bytesRead) buf) = (True, psk, e') \<and>
    isConnectionEncrypted eng e' \<and>
    writeDatagramEncrypted eng e' (socket s) (ping_message (name s) (ping s)) = (w, e'')"
  then have a': "0 < bytesRead" "\<not> isConnectionEncrypted eng (crypto s)"
    "doHandshake eng (crypto s) (socket s) (take (nat bytesRead) buf) = (True, psk, e')"
    and enc: "isConnectionEncrypted eng e'"
    by simp_all
  let ?s2 = "s\<lparr>crypto := e',
               effects := effects s @ psk_effects psk (name s) @
                 [CryptoDoHandshake (take (nat bytesRead) buf) True,
                  EmitInfoMessage (tr_arg ''%1: encrypted connection established!'' [name s]),
                  PingTimerStart],
               pingTimer := (pingTimer s)\<lparr>active := True\<rparr>\<rparr>"
  from a have wr:
    "writeDatagramEncrypted eng (crypto ?s2) (socket ?s2) (ping_message (name ?s2) (ping ?s2)) =
       (w, e'')"
    by simp
  have eq: "readyRead eng bytesRead buf s = pingTimeout eng ?s2"
    using enc by (simp add: readyRead_handshake_eq [OF a'])
  show "new_effects s (readyRead eng bytesRead buf s) =
        psk_effects psk (name s) @
        [CryptoDoHandshake (take (nat bytesRead) buf) True,
         EmitInfoMessage (tr_arg ''%1: encrypted connection established!'' [name s]),
         PingTimerStart,
         CryptoWriteDatagramEncrypted (ping_message (name s) (ping s)) w] @
        (if w \<le> 0 then
           [EmitErrorMessage (tr_arg ''%1: failed to send a ping - %2''
              [name s, dtlsErrorString eng e'']),
            PingTimerStop]
         else [])"
    unfolding eq pingTimeout_eq [OF wr] by (simp add: new_effects_def)
  show "active (pingTimer (readyRead eng bytesRead buf s)) = (0 < w)"
    unfolding eq pingTimeout_eq [OF wr] by auto
  show "ping (readyRead eng bytesRead buf s) = (if 0 < w then ping s + 1 else ping s)"
    unfolding eq pingTimeout_eq [OF wr] by auto
next
  let ?s0 = "DtlsAssociation_ctor e0 st0 nm"
  have s0: "\<not> active (pingTimer ?s0)" "name ?s0 = nm" "ping ?s0 = 0"
    and e: "new_effects ?s0 (run eng ?s0 evs) = effects (run eng ?s0 evs)"
    by (simp_all add: DtlsAssociation_ctor_def new_effects_def)
  note fp = run_first_ping [OF s0(1), of eng evs, unfolded e s0]
  {
    assume "pings (effects (run eng ?s0 evs)) = []"
    with fp show "\<not> active (pingTimer (run eng ?s0 evs))"
      by (auto simp: pings_append)
  next
    assume "pings (effects (run eng ?s0 evs)) = []"
    with fp show "PingTimerStart \<notin> set (effects (run eng ?s0 evs))"
      by (auto simp: pings_append)
  next
    assume "pings (effects (run eng ?s0 evs)) \<noteq> []"
    with fp show "\<exists>before w1 after.
         effects (run eng ?s0 evs) =
           before @
           [PingTimerStart, CryptoWriteDatagramEncrypted (ping_message nm 0) w1] @ after \<and>
         pings before = [] \<and> PingTimerStart \<notin> set before"
      by auto
  }
qed

theorem handshake_completion_starts_keepalive_witness:
  "(0::int) < 2 \<and> \<not> isConnectionEncrypted sim_engine (crypto (on_sim sim_fresh)) \<and>
   doHandshake sim_engine (crypto (on_sim sim_fresh)) (socket (on_sim sim_fresh))
     (take (nat 2) [5, 6]) = (True, 1, sim_secured) \<and>
   isConnectionEncrypted sim_engine sim_secured \<and>
   writeDatagramEncrypted sim_engine sim_secured (socket (on_sim sim_fresh))
     (ping_message (name (on_sim sim_fresh)) (ping (on_sim sim_fresh))) = (1, sim_secured) \<and>
   new_effects (on_sim sim_fresh) (readyRead sim_engine 2 [5, 6] (on_sim sim_fresh)) =
     psk_effects 1 ''client'' @
     [CryptoDoHandshake [5, 6] True,
      EmitInfoMessage (tr_arg ''%1: encrypted connection established!'' [''client'']),
      PingTimerStart,
      CryptoWriteDatagramEncrypted (ping_message ''client'' 0) 1] \<and>
   pings (effects (run sim_engine (on_sim sim_fresh) [CallStartHandshake])) = [] \<and>
   \<not> active (pingTimer (run sim_engine (on_sim sim_fresh) [CallStartHandshake])) \<and>
   pings (effects (run sim_engine (on_sim sim_fresh)
     [CallStartHandshake, SocketReadyRead 2 [5, 6], PingTimerTimeout])) \<noteq> [] \<and>
   (\<exists>before w1 after.
      effects (run sim_engine (on_sim sim_fresh)
        [CallStartHandshake, SocketReadyRead 2 [5, 6], PingTimerTimeout]) =
        before @
        [PingTimerStart, CryptoWriteDatagramEncrypted (ping_message ''client'' 0) w1] @ after \<and>
      pings before = [] \<and> PingTimerStart \<notin> set before)"
proof -
  have h: "pings (effects (run sim_engine (on_sim sim_fresh)
     [CallStartHandshake, SocketReadyRead 2 [5, 6], PingTimerTimeout])) \<noteq> []"
    by (simp add: sim_defs slot_simps Let_def psk_effects_def ping_message_def)
  from h handshake_completion_starts_keepalive
      [of 2 sim_engine "on_sim sim_fresh" "[5, 6]" 1 sim_secured 1 sim_secured
        sim_fresh ConnectedState "''client''"
        "[CallStartHandshake, SocketReadyRead 2 [5, 6], PingTimerTimeout]"]
  have ex: "\<exists>before w1 after.
      effects (run sim_engine (on_sim sim_fresh)
        [CallStartHandshake, SocketReadyRead 2 [5, 6], PingTimerTimeout]) =
        before @
        [PingTimerStart, CryptoWriteDatagramEncrypted (ping_message ''client'' 0) w1] @ after \<and>
      pings before = [] \<and> PingTimerStart \<notin> set before"
    unfolding on_sim_def by blast
  from h ex handshake_completion_starts_keepalive
      [of 2 sim_engine "on_sim sim_fresh" "[5, 6]" 1 sim_secured 1 sim_secured
        sim_fresh ConnectedState "''client''" "[CallStartHandshake]"]
  show ?thesis
    by (simp add: sim_defs slot_simps Let_def new_effects_def psk_effects_def
        ping_message_def tr_arg_def)
qed

text \<open>
  C1, as the code has it. \<open>ping\<close> is an \<open>unsigned\<close>, so "incremented by one" is meant
  modulo \<open>2 ^ 32\<close>. Every step of the event loop hands at most one ping to the engine; the
  ping embeds the current value of \<open>ping\<close>, and \<open>ping\<close> is incremented by one exactly
  when the engine reports \<open>written > 0\<close>; a step that sends no ping, the \<open>pskRequired\<close>
  slot and the destructor leave \<open>ping\<close> alone. Hence in a run of a new association in which
  every send succeeds, ping number \<open>k\<close> (counting from 0) embeds \<open>k mod 2 ^ 32\<close>: the
  numbers are 0, 1, 2, ... without gap or reset for the first \<open>2 ^ 32\<close> pings, and the
  counter wraps to 0 after 4294967295.
\<close>

theorem ping_sequence_modulo:
  "(pings (new_effects s (step eng ev s)) = [] \<and> ping (step eng ev s) = ping s \<or>
    (\<exists>w. pings (new_effects s (step eng ev s)) = [(ping_message (name s) (ping s), w)] \<and>
         ping (step eng ev s) = (if 0 < w then ping s + 1 else ping s))) \<and>
   (writeDatagramEncrypted eng (crypto s) (socket s) (ping_message (name s) (ping s)) =
      (written, e') \<longrightarrow>
      ping (pingTimeout eng s) = (if 0 < written then ping s + 1 else ping s)) \<and>
   ping (pskRequired s) = ping s \<and>
   ping (DtlsAssociation_dtor eng s) = ping s \<and>
   (pings_succeeded (effects (run eng (DtlsAssociation_ctor e0 st0 nm) evs)) \<longrightarrow>
      ping_numbers (effects (run eng (DtlsAssociation_ctor e0 st0 nm) evs)) =
        map (\<lambda>k. k mod 2 ^ 32)
          [0..<length (pings (effects (run eng (DtlsAssociation_ctor e0 st0 nm) evs)))] \<and>
      (length (pings (effects (run eng (DtlsAssociation_ctor e0 st0 nm) evs))) \<le> 2 ^ 32 \<longrightarrow>
         ping_numbers (effects (run eng (DtlsAssociation_ctor e0 st0 nm) evs)) =
           [0..<length (pings (effects (run eng (DtlsAssociation_ctor e0 st0 nm) evs)))]))"
proof (intro conjI impI)
  show "pings (new_effects s (step eng ev s)) = [] \<and> ping (step eng ev s) = ping s \<or>
    (\<exists>w. pings (new_effects s (step eng ev s)) = [(ping_message (name s) (ping s), w)] \<and>
         ping (step eng ev s) = (if 0 < w then ping s + 1 else ping s))"
    using step_ping_shape [of eng ev s] by blast
next
  assume "writeDatagramEncrypted eng (crypto s) (socket s) (ping_message (name s) (ping s)) =
      (written, e')"
  then show "ping (pingTimeout eng s) = (if 0 < written then ping s + 1 else ping s)"
    by (simp add: pingTimeout_eq)
next
  show "ping (pskRequired s) = ping s"
    by (simp add: pskRequired_def emit_def)
next
  show "ping (DtlsAssociation_dtor eng s) = ping s"
    by (simp add: DtlsAssociation_dtor_def split: prod.splits)
next
  let ?L = "effects (run eng (DtlsAssociation_ctor e0 st0 nm) evs)"
  assume ok: "pings_succeeded ?L"
  then show m: "ping_numbers ?L = map (\<lambda>k. k mod 2 ^ 32) [0..<length (pings ?L)]"
    by (rule run_from_ctor)
  assume "length (pings ?L) \<le> 2 ^ 32"
  then have "map (\<lambda>k. k mod 2 ^ 32) [0..<length (pings ?L)] = [0..<length (pings ?L)]"
    by (intro map_idI) simp
  with m show "ping_numbers ?L = [0..<length (pings ?L)]" by simp
qed

theorem ping_sequence_modulo_witness:
  "writeDatagramEncrypted sim_engine (crypto (on_sim sim_secured)) (socket (on_sim sim_secured))
     (ping_message (name (on_sim sim_secured)) (ping (on_sim sim_secured))) = (1, sim_secured) \<and>
   ping (pingTimeout sim_engine (on_sim sim_secured)) = 1 \<and>
   pings_succeeded (effects (run sim_engine (on_sim sim_fresh)
     [SocketReadyRead 2 [5, 6], PingTimerTimeout, CryptoHandshakeTimeout, PingTimerTimeout])) \<and>
   length (pings (effects (run sim_engine (on_sim sim_fresh)
     [SocketReadyRead 2 [5, 6], PingTimerTimeout, CryptoHandshakeTimeout, PingTimerTimeout])))
     \<le> 2 ^ 32 \<and>
   ping_numbers (effects (run sim_engine (on_sim sim_fresh)
     [SocketReadyRead 2 [5, 6], PingTimerTimeout, CryptoHandshakeTimeout, PingTimerTimeout])) =
     [0, 1, 2]"
  using ping_sequence_modulo [of "on_sim sim_secured" sim_engine PingTimerTimeout 1 sim_secured
      sim_fresh ConnectedState "''client''"
      "[SocketReadyRead 2 [5, 6], PingTimerTimeout, CryptoHandshakeTimeout, PingTimerTimeout]"]
  by (simp add: sim_defs slot_simps Let_def new_effects_def psk_effects_def
      ping_message_def tr_arg_def pings_succeeded_def ping_numbers_def)

text \<open>
  C1 as the specification states it fails: the numbers do not increase for ever and the
  counter does reset. On the small engine, whose sends always succeed, the handshake
  completes on the first datagram and sends ping 0; after \<open>2 ^ 32\<close> further ticks of the
  keepalive timer the last ping carries 0 again.
\<close>

theorem ping_sequence_wraps:
  "pings_succeeded (effects (run sim_engine (on_sim sim_fresh)
     (SocketReadyRead 1 [1] # replicate (2 ^ 32) PingTimerTimeout))) \<and>
   \<not> sorted_wrt (<) (ping_numbers (effects (run sim_engine (on_sim sim_fresh)
     (SocketReadyRead 1 [1] # replicate (2 ^ 32) PingTimerTimeout))))"
proof -
  have mem: "(2::nat) ^ 32 - 1 \<in> set [0..<2 ^ 32]"
    by (simp only: set_upt atLeastLessThan_iff) simp
  have zero: "unat (1 + of_nat (2 ^ 32 - 1) :: 32 word) = 0"
    by simp
  have "0 \<in> (\<lambda>k. unat (1 + of_nat k :: 32 word)) ` set [0..<2 ^ 32]"
    by (rule image_eqI [where f = "\<lambda>k. unat (1 + of_nat k :: 32 word)" and x = "2 ^ 32 - 1",
          OF _ mem])
      (simp only: zero)
  then have "0 \<in> set (map (\<lambda>k. unat (1 + of_nat k :: 32 word)) [0..<2 ^ 32])"
    by (simp only: set_map)
  then have "\<not> sorted_wrt (<) (0 # map (\<lambda>k. unat (1 + of_nat k :: 32 word)) [0..<2 ^ 32])"
    by (simp only: sorted_wrt.simps) blast
  then show ?thesis
    unfolding sim_run_numbers by (intro conjI sim_run_succeeds)
qed

end
